theory Spec2Isabelle
  imports Main "HOL-Library.Word" "HOL-Library.Multiset"
begin

section \<open>Data model (db.ts)\<close>

text \<open>
  A JavaScript string is a sequence of UTF-16 code units and \<open>.length\<close> counts those
  units.  The request body, whose length the ingestion route measures, is modelled that
  way.  Identifiers, tokens, header names and method names are only compared, so they are
  plain strings.
\<close>

type_synonym jsstring = "16 word list"

text \<open>
  Timestamps are what SQLite's \<open>datetime('now')\<close> yields, a non-empty text with one-second
  resolution; the model keeps the number of seconds.  A timestamp is therefore never
  falsy in JavaScript, and \<open>!event.delivered_at\<close> holds exactly for \<open>null\<close>.
\<close>

type_synonym timestamp = nat

text \<open>Values of \<open>JSON.parse\<close> and arguments of \<open>JSON.stringify\<close>.\<close>

datatype json =
    JNull
  | JBool bool
  | JNum int
  | JStr jsstring
  | JArr "json list"
  | JObj "(string \<times> json) list"

text \<open>
  Row of table \<open>hooks\<close>.  The primary key \<open>id\<close> is the key of the table (see \<open>store\<close>),
  so the row itself holds the remaining columns.
\<close>

record hook =
  api_key :: string
  name :: "string option"
  description :: "string option"
  delivery_method :: string
  delivery_config :: "jsstring option"
  created_at :: timestamp
  last_triggered_at :: "timestamp option"
  event_count :: int

text \<open>
  Row of table \<open>events\<close>; its columns \<open>id\<close> and \<open>method\<close> are the fields \<open>event_id\<close> and
  \<open>http_method\<close>.  Columns \<open>headers\<close> and \<open>query_params\<close> hold
  \<open>JSON.stringify\<close> of a string-to-string object and are read back with \<open>JSON.parse\<close>;
  the model keeps the object itself (a list of properties in insertion order).
\<close>

record event =
  event_id :: string
  hook_id :: string
  http_method :: string
  headers :: "(string \<times> string) list"
  body :: "jsstring option"
  query_params :: "(string \<times> string) list option"
  source_ip :: "string option"
  received_at :: timestamp
  delivered_at :: "timestamp option"

text \<open>
  The database: table \<open>hooks\<close> keyed by its primary key, table \<open>events\<close> in insertion
  (rowid) order.  Field \<open>faults\<close> is the storage environment: the next statement
  execution raises (disk full, database locked, ...) iff the head of the list is \<open>True\<close>;
  an empty list means that no further execution fails.
\<close>

record store =
  hooks :: "string \<rightharpoonup> hook"
  events :: "event list"
  faults :: "bool list"

section \<open>Prepared statements (db.ts)\<close>

text \<open>Whether the statement execution that starts now raises, and the store afterwards.\<close>

definition step_fault :: "store \<Rightarrow> bool \<times> store" where
  "step_fault s = (case faults s of [] \<Rightarrow> (False, s) | f # fs \<Rightarrow> (f, s\<lparr>faults := fs\<rparr>))"

subsection \<open>SQL semantics on the tables\<close>

text \<open>\<open>UPDATE events SET delivered_at = datetime('now') WHERE id = ?\<close>\<close>

definition markEventsDelivered :: "timestamp \<Rightarrow> string \<Rightarrow> event list \<Rightarrow> event list" where
  "markEventsDelivered now eid es =
     map (\<lambda>e. if event_id e = eid then e\<lparr>delivered_at := Some now\<rparr> else e) es"

text \<open>
  \<open>LIMIT ?\<close> of SQLite: a negative value means no upper bound; a value that does not
  convert to a 64-bit integer (among them \<open>NULL\<close>, which is how \<open>NaN\<close> is bound) raises
  a datatype mismatch.  \<open>None\<close> as argument is \<open>NaN\<close>, \<open>None\<close> as result is the error.
  The argument is a whole number that a double holds (see \<open>to_double\<close> below); SQLite
  takes it as an integer when it lies strictly between \<open>- 2 ^ 63\<close> and \<open>2 ^ 63\<close>.
\<close>

definition sql_limit :: "int option \<Rightarrow> 'a list \<Rightarrow> 'a list option" where
  "sql_limit lim rows =
     (case lim of
        None \<Rightarrow> None
      | Some n \<Rightarrow>
          if n \<le> - (2 ^ 63) then None
          else if n < 0 then Some rows
          else Some (take (nat n) rows))"

text \<open>
  \<open>SELECT * FROM events WHERE hook_id = ? ORDER BY received_at DESC LIMIT ?\<close>: the rows of
  the hook by falling \<open>received_at\<close>.  Rows with equal \<open>received_at\<close> come in insertion
  order, which is what SQLite's sorter yields (the sort is stable).
\<close>

definition getEvents :: "string \<Rightarrow> int option \<Rightarrow> event list \<Rightarrow> event list option" where
  "getEvents hid lim es =
     sql_limit lim
       (sort_key (\<lambda>e. - int (received_at e)) (filter (\<lambda>e. hook_id e = hid) es))"

text \<open>
  \<open>SELECT * FROM events WHERE hook_id = ? AND delivered_at IS NULL
   ORDER BY received_at ASC LIMIT ?\<close>, rows with equal \<open>received_at\<close> in insertion order.
\<close>

definition getUndeliveredEvents :: "string \<Rightarrow> int option \<Rightarrow> event list \<Rightarrow> event list option" where
  "getUndeliveredEvents hid lim es =
     sql_limit lim
       (sort_key received_at (filter (\<lambda>e. hook_id e = hid \<and> delivered_at e = None) es))"

text \<open>
  \<open>INSERT INTO events (id, hook_id, method, headers, body, query_params, source_ip)\<close>:
  the primary key \<open>id\<close> is unique, \<open>hook_id\<close> references an existing hook (the foreign
  key of the schema),
  \<open>received_at\<close> defaults to \<open>datetime('now')\<close> and \<open>delivered_at\<close> to \<open>NULL\<close>.
  \<open>None\<close> is a constraint violation.
\<close>

definition createEvent ::
  "timestamp \<Rightarrow> string \<Rightarrow> string \<Rightarrow> string \<Rightarrow> (string \<times> string) list \<Rightarrow> jsstring option \<Rightarrow>
   (string \<times> string) list option \<Rightarrow> string option \<Rightarrow> store \<Rightarrow> store option" where
  "createEvent now eid hid m hs b qp ip s =
     (if eid \<in> set (map event_id (events s)) \<or> hooks s hid = None then None
      else Some (s\<lparr>events := events s @
             [\<lparr>event_id = eid, hook_id = hid, http_method = m, headers = hs, body = b,
               query_params = qp, source_ip = ip, received_at = now, delivered_at = None\<rparr>]\<rparr>))"

text \<open>
  \<open>UPDATE hooks SET last_triggered_at = datetime('now'), event_count = event_count + 1
   WHERE id = ?\<close>
\<close>

definition updateHookTrigger :: "timestamp \<Rightarrow> string \<Rightarrow> store \<Rightarrow> store" where
  "updateHookTrigger now hid s =
     (case hooks s hid of
        None \<Rightarrow> s
      | Some h \<Rightarrow>
          s\<lparr>hooks := (hooks s)(hid \<mapsto>
               h\<lparr>last_triggered_at := Some now, event_count := event_count h + 1\<rparr>)\<rparr>)"

text \<open>
  \<open>DELETE FROM hooks WHERE id = ? AND api_key = ?\<close>, with the number of deleted rows;
  the events of a deleted hook go with it (\<open>ON DELETE CASCADE\<close>).
\<close>

definition deleteHook :: "string \<Rightarrow> string \<Rightarrow> store \<Rightarrow> nat \<times> store" where
  "deleteHook hid token s =
     (case hooks s hid of
        None \<Rightarrow> (0, s)
      | Some h \<Rightarrow>
          if api_key h = token
          then (1, s\<lparr>hooks := (hooks s)(hid := None),
                     events := filter (\<lambda>e. hook_id e \<noteq> hid) (events s)\<rparr>)
          else (0, s))"

subsection \<open>Executing a statement\<close>

text \<open>
  \<open>statements.x.get/all/run(...)\<close> either raises, which is the result \<open>None\<close>, or yields
  the statement's result.  A statement that raises leaves the tables as they were.
\<close>

definition getHook_get :: "string \<Rightarrow> store \<Rightarrow> hook option option \<times> store" where
  "getHook_get hid s =
     (case step_fault s of (f, s') \<Rightarrow> if f then (None, s') else (Some (hooks s' hid), s'))"

definition createEvent_run ::
  "timestamp \<Rightarrow> string \<Rightarrow> string \<Rightarrow> string \<Rightarrow> (string \<times> string) list \<Rightarrow> jsstring option \<Rightarrow>
   (string \<times> string) list option \<Rightarrow> string option \<Rightarrow> store \<Rightarrow> unit option \<times> store" where
  "createEvent_run now eid hid m hs b qp ip s =
     (case step_fault s of (f, s') \<Rightarrow>
        if f then (None, s')
        else (case createEvent now eid hid m hs b qp ip s' of
                None \<Rightarrow> (None, s')
              | Some s'' \<Rightarrow> (Some (), s'')))"

definition updateHookTrigger_run :: "timestamp \<Rightarrow> string \<Rightarrow> store \<Rightarrow> unit option \<times> store" where
  "updateHookTrigger_run now hid s =
     (case step_fault s of (f, s') \<Rightarrow>
        if f then (None, s') else (Some (), updateHookTrigger now hid s'))"

definition markEventsDelivered_run :: "timestamp \<Rightarrow> string \<Rightarrow> store \<Rightarrow> unit option \<times> store" where
  "markEventsDelivered_run now eid s =
     (case step_fault s of (f, s') \<Rightarrow>
        if f then (None, s')
        else (Some (), s'\<lparr>events := markEventsDelivered now eid (events s')\<rparr>))"

definition deleteHook_run :: "string \<Rightarrow> string \<Rightarrow> store \<Rightarrow> nat option \<times> store" where
  "deleteHook_run hid token s =
     (case step_fault s of (f, s') \<Rightarrow>
        if f then (None, s')
        else (case deleteHook hid token s' of (changes, s'') \<Rightarrow> (Some changes, s'')))"

definition getEvents_all :: "string \<Rightarrow> int option \<Rightarrow> store \<Rightarrow> event list option \<times> store" where
  "getEvents_all hid lim s =
     (case step_fault s of (f, s') \<Rightarrow>
        if f then (None, s') else (getEvents hid lim (events s'), s'))"

definition getUndeliveredEvents_all ::
  "string \<Rightarrow> int option \<Rightarrow> store \<Rightarrow> event list option \<times> store" where
  "getUndeliveredEvents_all hid lim s =
     (case step_fault s of (f, s') \<Rightarrow>
        if f then (None, s') else (getUndeliveredEvents hid lim (events s'), s'))"

section \<open>JavaScript helpers\<close>

text \<open>\<open>a || b\<close> on values that are a string or \<open>undefined\<close>: the empty string is falsy.\<close>

definition js_or :: "string option \<Rightarrow> string option \<Rightarrow> string option" where
  "js_or a b = (case a of None \<Rightarrow> b | Some v \<Rightarrow> if v = [] then b else Some v)"

text \<open>Truthiness of a value that is a string or \<open>null\<close>.\<close>

definition truthy :: "'a list option \<Rightarrow> bool" where
  "truthy a = (case a of None \<Rightarrow> False | Some v \<Rightarrow> v \<noteq> [])"

definition toLowerCase :: "string \<Rightarrow> string" where
  "toLowerCase s =
     map (\<lambda>c. if 65 \<le> (of_char c :: nat) \<and> (of_char c :: nat) \<le> 90
               then char_of ((of_char c :: nat) + 32) else c) s"

text \<open>White space as \<open>trim\<close> and \<open>parseInt\<close> skip it (the ASCII part of it).\<close>

definition isWhiteSpace :: "char \<Rightarrow> bool" where
  "isWhiteSpace c = ((of_char c :: nat) \<in> set [9, 10, 11, 12, 13, 32])"

definition trim :: "string \<Rightarrow> string" where
  "trim s = rev (dropWhile isWhiteSpace (rev (dropWhile isWhiteSpace s)))"

text \<open>
  An object literal \<open>{}\<close> that receives string values is kept as the list of its own
  properties in the order in which JavaScript enumerates them (as \<open>JSON.stringify\<close> and
  \<open>Object.keys\<close> do): first the keys that are array indices, by rising number, then the
  other keys in the order of their first assignment.  An array index is the decimal form,
  without leading zeros, of a number below \<open>2 ^ 32 - 1\<close>.
\<close>

definition index_value :: "string \<Rightarrow> nat" where
  "index_value k = foldl (\<lambda>a c. a * 10 + ((of_char c :: nat) - 48)) 0 k"

definition is_array_index :: "string \<Rightarrow> bool" where
  "is_array_index k =
     (k \<noteq> [] \<and> list_all (\<lambda>c. 48 \<le> (of_char c :: nat) \<and> (of_char c :: nat) \<le> 57) k
      \<and> (k = ''0'' \<or> take 1 k \<noteq> ''0'') \<and> index_value k < 2 ^ 32 - 1)"

text \<open>A new property whose key is an array index goes before the first larger index or other key.\<close>

fun insert_index :: "string \<Rightarrow> 'v \<Rightarrow> (string \<times> 'v) list \<Rightarrow> (string \<times> 'v) list" where
  "insert_index k v [] = [(k, v)]"
| "insert_index k v (p # ps) =
     (if is_array_index (fst p) \<and> index_value (fst p) < index_value k
      then p # insert_index k v ps
      else (k, v) # p # ps)"

text \<open>
  \<open>obj[key] = value\<close> for a string value: the key \<open>__proto__\<close> reaches the setter of
  \<open>Object.prototype\<close>, which ignores a string, so no property is added; a key that is
  present keeps its place and takes the new value; a new key is added.
\<close>

definition set_prop :: "string \<Rightarrow> 'v \<Rightarrow> (string \<times> 'v) list \<Rightarrow> (string \<times> 'v) list" where
  "set_prop k v obj =
     (if k = ''__proto__'' then obj
      else if k \<in> set (map fst obj) then map (\<lambda>p. if fst p = k then (k, v) else p) obj
      else if is_array_index k then insert_index k v obj
      else obj @ [(k, v)])"

text \<open>
  Value of a digit in radix up to 36; 36 for a character that is no digit.
\<close>

definition digit_value :: "char \<Rightarrow> nat" where
  "digit_value c =
     (let n = (of_char c :: nat) in
      if 48 \<le> n \<and> n \<le> 57 then n - 48
      else if 97 \<le> n \<and> n \<le> 122 then n - 87
      else if 65 \<le> n \<and> n \<le> 90 then n - 55
      else 36)"

text \<open>
  A JavaScript number is a double.  \<open>to_double n\<close> is the integer that the double nearest
  to \<open>n\<close> stands for: \<open>n\<close> itself below \<open>2 ^ 53\<close>, and above it \<open>n\<close> rounded to 53
  significant bits, a tie going to the even side.
\<close>

function excess_bits :: "nat \<Rightarrow> nat" where
  "excess_bits n = (if n < 2 ^ 53 then 0 else Suc (excess_bits (n div 2)))"
  by pat_completeness auto
termination
  by (relation "measure id") auto

declare excess_bits.simps [simp del]

definition to_double :: "nat \<Rightarrow> nat" where
  "to_double n =
     (let k = excess_bits n; q = n div 2 ^ k; r = n mod 2 ^ k
      in if 2 * r > 2 ^ k \<or> (2 * r = 2 ^ k \<and> odd q) then (q + 1) * 2 ^ k else q * 2 ^ k)"

text \<open>
  \<open>parseInt(string)\<close> without a radix: leading white space, a sign, an optional \<open>0x\<close>, then
  the longest run of digits, read as a number; \<open>None\<close> is \<open>NaN\<close>.
\<close>

definition parseInt :: "string \<Rightarrow> int option" where
  "parseInt str =
     (let s1 = dropWhile isWhiteSpace str;
          neg = (case s1 of [] \<Rightarrow> False | c # _ \<Rightarrow> c = CHR ''-'');
          s2 = (case s1 of [] \<Rightarrow> [] | c # r \<Rightarrow> if c = CHR ''-'' \<or> c = CHR ''+'' then r else s1);
          hex = (case s2 of c # x # _ \<Rightarrow> c = CHR ''0'' \<and> (x = CHR ''x'' \<or> x = CHR ''X'') | _ \<Rightarrow> False);
          radix = (if hex then 16 else 10);
          ds = takeWhile (\<lambda>c. digit_value c < radix) (if hex then drop 2 s2 else s2);
          n = foldl (\<lambda>a c. a * radix + digit_value c) 0 ds
      in if ds = [] then None
         else Some (if neg then - int (to_double n) else int (to_double n)))"

section \<open>Ingestion route (routes/webhook.ts)\<close>

definition EXCLUDED_HEADERS :: "string list" where
  "EXCLUDED_HEADERS =
     [''cookie'', ''authorization'', ''x-forwarded-for'', ''x-real-ip'', ''cf-connecting-ip'']"

definition MAX_BODY_SIZE :: nat where
  "MAX_BODY_SIZE = 100 * 1024"

text \<open>
  What the handler reads of a request: the method, the header entries as the \<open>Headers\<close>
  object iterates them (names in lower case), the entries of \<open>url.searchParams\<close>, and the
  result of \<open>await c.req.text()\<close>, \<open>None\<close> when reading the body raises.
\<close>

record request =
  req_method :: string
  req_headers :: "(string \<times> string) list"
  req_query :: "(string \<times> string) list"
  req_text :: "jsstring option"

text \<open>Bodies of the JSON responses of the routes, and \<open>c.json(body, status)\<close>.\<close>

record hook_view =
  hv_id :: string
  hv_webhook_url :: string
  hv_name :: "string option"
  hv_description :: "string option"
  hv_delivery_method :: string
  hv_delivery_config :: json
  hv_created_at :: timestamp
  hv_last_triggered_at :: "timestamp option"
  hv_event_count :: int

record event_view =
  ev_id :: string
  ev_method :: string
  ev_headers :: "(string \<times> string) list"
  ev_body :: json
  ev_query_params :: "(string \<times> string) list option"
  ev_source_ip :: "string option"
  ev_received_at :: timestamp
  ev_delivered_at :: "timestamp option"

datatype payload =
    Received bool "string option"
  | Failure string
  | HookDetail hook_view
  | Deleted bool string
  | EventList "event_view list" nat bool

record response =
  status :: nat
  payload :: payload

definition c_json :: "payload \<Rightarrow> nat \<Rightarrow> response" where
  "c_json b st = \<lparr>status = st, payload = b\<rparr>"

text \<open>The header object built by the \<open>forEach\<close> over the request headers.\<close>

definition stored_headers :: "request \<Rightarrow> (string \<times> string) list" where
  "stored_headers req =
     foldl (\<lambda>obj (k, v). if toLowerCase k \<in> set EXCLUDED_HEADERS then obj else set_prop k v obj)
       [] (req_headers req)"

definition queryParams :: "request \<Rightarrow> (string \<times> string) list" where
  "queryParams req = foldl (\<lambda>obj (k, v). set_prop k v obj) [] (req_query req)"

text \<open>The object of the truncation marker, the argument of \<open>JSON.stringify\<close>.\<close>

definition truncation_marker :: "jsstring \<Rightarrow> json" where
  "truncation_marker rawBody =
     JObj [(''_truncated'', JBool True),
           (''_original_size'', JNum (int (length rawBody))),
           (''_preview'', JStr (take 1000 rawBody))]"

text \<open>
  Variable \<open>body\<close> of the handler.  \<open>JSON.stringify\<close> is a parameter.
\<close>

definition stored_body :: "(json \<Rightarrow> jsstring) \<Rightarrow> request \<Rightarrow> jsstring option" where
  "stored_body JSON_stringify req =
     (if req_method req \<in> set [''POST'', ''PUT'', ''PATCH''] then
        (case req_text req of
           None \<Rightarrow> None
         | Some rawBody \<Rightarrow>
             if length rawBody \<le> MAX_BODY_SIZE then Some rawBody
             else Some (JSON_stringify (truncation_marker rawBody)))
      else None)"

definition sourceIp :: "request \<Rightarrow> string option" where
  "sourceIp req =
     js_or (map_option (\<lambda>v. trim (takeWhile (\<lambda>c. c \<noteq> CHR '','') v))
              (map_of (req_headers req) ''x-forwarded-for''))
       (js_or (map_of (req_headers req) ''x-real-ip'')
          (js_or (map_of (req_headers req) ''cf-connecting-ip'') None))"

text \<open>
  Whether a value that \<open>JSON.parse\<close> has built raises when a template literal turns it into
  a string.  An object with an own property \<open>toString\<close> does: the property is no function,
  and neither an own \<open>valueOf\<close> nor the inherited one yields a primitive.  An array joins
  the strings of its elements.  Every other value has a string.
\<close>

fun template_raises :: "json \<Rightarrow> bool" where
  "template_raises (JObj ps) = (''toString'' \<in> set (map fst ps))"
| "template_raises (JArr xs) = (\<exists>x\<in>set xs. template_raises x)"
| "template_raises j = False"

text \<open>
  Whether \<open>${config.key}\<close> raises: reading a property of \<open>null\<close> does; otherwise the value
  of the property is turned into a string, \<open>undefined\<close> when \<open>config\<close> is no object or has
  no such property (of equal keys the last one counts).
\<close>

definition field_raises :: "json \<Rightarrow> string \<Rightarrow> bool" where
  "field_raises config k =
     (case config of
        JNull \<Rightarrow> True
      | JObj ps \<Rightarrow> (case map_of (rev ps) k of None \<Rightarrow> False | Some v \<Rightarrow> template_raises v)
      | _ \<Rightarrow> False)"

text \<open>Whether the \<open>switch\<close> of \<open>deliverEvent\<close> raises in the branch of the delivery method.\<close>

definition switch_raises :: "string \<Rightarrow> json \<Rightarrow> bool" where
  "switch_raises m config =
     (if m = ''nostr'' then field_raises config ''nostr_pubkey''
      else if m = ''email'' then field_raises config ''email''
      else False)"

text \<open>
  \<open>deliverEvent\<close>: everything after the first line runs inside \<open>try\<close>, and the \<open>catch\<close>
  only logs, so each failure leaves the store as it is at that point.  \<open>JSON.parse\<close> is a
  parameter, \<open>None\<close> when it raises.
\<close>

definition deliverEvent ::
  "(jsstring \<Rightarrow> json option) \<Rightarrow> timestamp \<Rightarrow> hook \<Rightarrow> string \<Rightarrow> store \<Rightarrow> store" where
  "deliverEvent JSON_parse now h eventId s =
     (case delivery_config h of
        None \<Rightarrow> s
      | Some cfg \<Rightarrow>
          if cfg = [] then s
          else (case JSON_parse cfg of
                  None \<Rightarrow> s
                | Some config \<Rightarrow>
                    if switch_raises (delivery_method h) config then s
                    else snd (markEventsDelivered_run now eventId s)))"

text \<open>
  \<open>webhook.all('/:id')\<close>: \<open>now\<close> is the clock of the database, \<open>eventId\<close> the value of
  \<open>nanoid(16)\<close>.  Every \<open>None\<close> of a statement is an exception that reaches the \<open>catch\<close>
  of the handler.
\<close>

definition webhook_all ::
  "(json \<Rightarrow> jsstring) \<Rightarrow> (jsstring \<Rightarrow> json option) \<Rightarrow> timestamp \<Rightarrow> string \<Rightarrow> string \<Rightarrow>
   request \<Rightarrow> store \<Rightarrow> response \<times> store" where
  "webhook_all JSON_stringify JSON_parse now eventId hookId req s =
     (case getHook_get hookId s of
        (None, s1) \<Rightarrow> (c_json (Received True None) 200, s1)
      | (Some None, s1) \<Rightarrow> (c_json (Received True None) 200, s1)
      | (Some (Some h), s1) \<Rightarrow>
          (case createEvent_run now eventId hookId (req_method req) (stored_headers req)
                  (stored_body JSON_stringify req)
                  (if queryParams req \<noteq> [] then Some (queryParams req) else None)
                  (sourceIp req) s1 of
             (None, s2) \<Rightarrow> (c_json (Received True None) 200, s2)
           | (Some _, s2) \<Rightarrow>
               (case updateHookTrigger_run now hookId s2 of
                  (None, s3) \<Rightarrow> (c_json (Received True None) 200, s3)
                | (Some _, s3) \<Rightarrow>
                    (c_json (Received True (Some eventId)) 200,
                     if delivery_method h \<noteq> ''poll'' \<and> truthy (delivery_config h)
                     then deliverEvent JSON_parse now h eventId s3
                     else s3))))"

text \<open>The row that the handler hands to \<open>createEvent\<close>.\<close>

definition ingested_row :: "(json \<Rightarrow> jsstring) \<Rightarrow> timestamp \<Rightarrow> string \<Rightarrow> string \<Rightarrow> request \<Rightarrow> event" where
  "ingested_row JSON_stringify now eventId hookId req =
     \<lparr>event_id = eventId, hook_id = hookId, http_method = req_method req,
      headers = stored_headers req, body = stored_body JSON_stringify req,
      query_params = (if queryParams req \<noteq> [] then Some (queryParams req) else None),
      source_ip = sourceIp req, received_at = now, delivered_at = None\<rparr>"

section \<open>Credential cache and authentication (auth.ts)\<close>

record TokenValidation =
  valid :: bool
  user_id :: "string option"
  email :: "string option"
  credits :: "int option"
  error :: "string option"

record cache_entry =
  result :: TokenValidation
  expires :: nat

type_synonym tokenCache = "string \<rightharpoonup> cache_entry"

definition TOKEN_CACHE_TTL :: nat where
  "TOKEN_CACHE_TTL = 60000"

text \<open>
  What the call of the external authority does: \<open>fetch\<close> raises, or the reply cannot be
  read as a JSON object (\<open>response.json()\<close> or \<open>data.valid\<close> raises), or it is a
  validation record.  The authority is a function of the token and the operation sent.
\<close>

datatype authority_reply = Unreachable | Malformed | Reply TokenValidation

type_synonym authority = "string \<Rightarrow> string \<Rightarrow> authority_reply"

text \<open>
  \<open>verifyToken\<close>: \<open>clock\<close> is \<open>Date.now()\<close> in milliseconds.  The result is the validation,
  the cache afterwards, and whether the authority was called.
\<close>

definition verifyToken ::
  "authority \<Rightarrow> nat \<Rightarrow> string \<Rightarrow> string \<Rightarrow> tokenCache \<Rightarrow> TokenValidation \<times> tokenCache \<times> bool" where
  "verifyToken auth clock token operation cache =
     (if token = [] then
        (\<lparr>valid = False, user_id = None, email = None, credits = None,
          error = Some ''No token provided''\<rparr>, cache, False)
      else
        (case (case cache token of
                 None \<Rightarrow> None
               | Some cached \<Rightarrow> if expires cached > clock then Some (result cached) else None) of
           Some r \<Rightarrow> (r, cache, False)
         | None \<Rightarrow>
             (case auth token operation of
                Reply data \<Rightarrow>
                  (data,
                   if valid data
                   then cache(token \<mapsto> \<lparr>result = data, expires = clock + TOKEN_CACHE_TTL\<rparr>)
                   else cache,
                   True)
              | _ \<Rightarrow>
                  (\<lparr>valid = False, user_id = None, email = None, credits = None,
                    error = Some ''Authentication service unavailable''\<rparr>, cache, True))))"

record AuthContext =
  token :: string
  userId :: "string option"
  ctx_email :: "string option"
  ctx_credits :: int

definition startsWith :: "string \<Rightarrow> string \<Rightarrow> bool" where
  "startsWith s p = (take (length p) s = p)"

text \<open>
  \<open>authMiddleware\<close>: either the response that ends the request, or the context under
  which the route handler runs; with it the cache afterwards and whether the authority
  was called.
\<close>

definition authMiddleware ::
  "authority \<Rightarrow> nat \<Rightarrow> string option \<Rightarrow> tokenCache \<Rightarrow> (response + AuthContext) \<times> tokenCache \<times> bool" where
  "authMiddleware auth clock authHeader cache =
     (case authHeader of
        None \<Rightarrow> (Inl (c_json (Failure ''Missing or invalid Authorization header'') 401), cache, False)
      | Some hdr \<Rightarrow>
          if hdr = [] \<or> \<not> startsWith hdr ''Bearer ''
          then (Inl (c_json (Failure ''Missing or invalid Authorization header'') 401), cache, False)
          else if drop 7 hdr = []
          then (Inl (c_json (Failure ''API token required'') 401), cache, False)
          else
            (case verifyToken auth clock (drop 7 hdr) ''webhook_access'' cache of
               (validation, cache', called) \<Rightarrow>
                 if \<not> valid validation
                 then (Inl (c_json (Failure (case js_or (error validation) None of
                                               None \<Rightarrow> ''Invalid token'' | Some e \<Rightarrow> e)) 401),
                       cache', called)
                 else (Inr \<lparr>token = drop 7 hdr, userId = user_id validation,
                             ctx_email = email validation,
                             ctx_credits = (case credits validation of None \<Rightarrow> 0 | Some c \<Rightarrow> c)\<rparr>,
                       cache', called)))"

section \<open>Hook routes (routes/hooks.ts)\<close>

text \<open>
  The handlers run behind the middleware: \<open>tok\<close> is \<open>auth.token\<close>.  \<open>PUBLIC_URL\<close> is the
  environment variable, \<open>JSON.parse\<close> a parameter.
\<close>

definition publicUrl :: "string option \<Rightarrow> string" where
  "publicUrl PUBLIC_URL =
     (case js_or PUBLIC_URL None of None \<Rightarrow> ''https://api.klawhook.xyz'' | Some u \<Rightarrow> u)"

text \<open>\<open>hooks.get('/:id')\<close>\<close>

definition hooks_get ::
  "(jsstring \<Rightarrow> json option) \<Rightarrow> string option \<Rightarrow> string \<Rightarrow> string \<Rightarrow> store \<Rightarrow> response \<times> store" where
  "hooks_get JSON_parse PUBLIC_URL tok hookId s =
     (case getHook_get hookId s of
        (None, s1) \<Rightarrow> (c_json (Failure ''Failed to get webhook'') 500, s1)
      | (Some None, s1) \<Rightarrow> (c_json (Failure ''Webhook not found'') 404, s1)
      | (Some (Some h), s1) \<Rightarrow>
          if api_key h \<noteq> tok then (c_json (Failure ''Unauthorized'') 403, s1)
          else
            (case (if truthy (delivery_config h)
                   then (case delivery_config h of None \<Rightarrow> Some JNull | Some cfg \<Rightarrow> JSON_parse cfg)
                   else Some JNull) of
               None \<Rightarrow> (c_json (Failure ''Failed to get webhook'') 500, s1)
             | Some cfg \<Rightarrow>
                 (c_json (HookDetail
                    \<lparr>hv_id = hookId,
                      hv_webhook_url = publicUrl PUBLIC_URL @ ''/webhook/'' @ hookId,
                      hv_name = name h, hv_description = description h,
                      hv_delivery_method = delivery_method h, hv_delivery_config = cfg,
                      hv_created_at = created_at h,
                      hv_last_triggered_at = last_triggered_at h,
                      hv_event_count = event_count h\<rparr>) 200, s1)))"

text \<open>\<open>hooks.delete('/:id')\<close>\<close>

definition hooks_delete :: "string \<Rightarrow> string \<Rightarrow> store \<Rightarrow> response \<times> store" where
  "hooks_delete tok hookId s =
     (case deleteHook_run hookId tok s of
        (None, s1) \<Rightarrow> (c_json (Failure ''Failed to delete webhook'') 500, s1)
      | (Some changes, s1) \<Rightarrow>
          if changes = 0 then (c_json (Failure ''Webhook not found or unauthorized'') 404, s1)
          else (c_json (Deleted True ''Webhook deleted'') 200, s1))"

text \<open>\<open>c.req.query(key)\<close>: the first value given for the key.\<close>

definition req_query_limit :: "(string \<times> string) list \<Rightarrow> int option" where
  "req_query_limit q =
     map_option (\<lambda>n. min n 100)
       (parseInt (case js_or (map_of q ''limit'') None of None \<Rightarrow> ''50'' | Some v \<Rightarrow> v))"

definition tryParseJson :: "(jsstring \<Rightarrow> json option) \<Rightarrow> jsstring \<Rightarrow> json" where
  "tryParseJson JSON_parse str = (case JSON_parse str of Some j \<Rightarrow> j | None \<Rightarrow> JStr str)"

text \<open>The object that the poll response lists for a row of \<open>events\<close>.\<close>

definition view_of :: "(jsstring \<Rightarrow> json option) \<Rightarrow> event \<Rightarrow> event_view" where
  "view_of JSON_parse e =
     \<lparr>ev_id = event_id e, ev_method = http_method e, ev_headers = headers e,
      ev_body = (case body e of
                   None \<Rightarrow> JNull
                 | Some b \<Rightarrow> if b = [] then JNull else tryParseJson JSON_parse b),
      ev_query_params = query_params e, ev_source_ip = source_ip e,
      ev_received_at = received_at e, ev_delivered_at = delivered_at e\<rparr>"

text \<open>
  The loop over the rows read: a row is marked when the row as read has no
  \<open>delivered_at\<close>.  The flag is \<open>False\<close> when a statement raised, which ends the loop.
\<close>

fun mark_returned :: "timestamp \<Rightarrow> event list \<Rightarrow> store \<Rightarrow> bool \<times> store" where
  "mark_returned now [] s = (True, s)"
| "mark_returned now (e # es) s =
     (if delivered_at e = None then
        (case markEventsDelivered_run now (event_id e) s of
           (None, s') \<Rightarrow> (False, s')
         | (Some _, s') \<Rightarrow> mark_returned now es s')
      else mark_returned now es s)"

text \<open>\<open>hooks.get('/:id/events')\<close>: \<open>q\<close> are the query parameters of the request.\<close>

definition hooks_events ::
  "(jsstring \<Rightarrow> json option) \<Rightarrow> timestamp \<Rightarrow> string \<Rightarrow> string \<Rightarrow> (string \<times> string) list \<Rightarrow>
   store \<Rightarrow> response \<times> store" where
  "hooks_events JSON_parse now tok hookId q s =
     (let limit = req_query_limit q;
          undeliveredOnly = (map_of q ''undelivered'' = Some ''true'');
          markDelivered = (map_of q ''mark_delivered'' \<noteq> Some ''false'')
      in case getHook_get hookId s of
           (None, s1) \<Rightarrow> (c_json (Failure ''Failed to get events'') 500, s1)
         | (Some None, s1) \<Rightarrow> (c_json (Failure ''Webhook not found'') 404, s1)
         | (Some (Some h), s1) \<Rightarrow>
             if api_key h \<noteq> tok then (c_json (Failure ''Unauthorized'') 403, s1)
             else
               (case (if undeliveredOnly then getUndeliveredEvents_all hookId limit s1
                      else getEvents_all hookId limit s1) of
                  (None, s2) \<Rightarrow> (c_json (Failure ''Failed to get events'') 500, s2)
                | (Some evs, s2) \<Rightarrow>
                    (case (if markDelivered \<and> evs \<noteq> [] then mark_returned now evs s2
                           else (True, s2)) of
                       (ok, s3) \<Rightarrow>
                         if \<not> ok then (c_json (Failure ''Failed to get events'') 500, s3)
                         else (c_json (EventList (map (view_of JSON_parse) evs) (length evs)
                                 (Some (int (length evs)) = limit)) 200, s3))))"

text \<open>Variable \<open>events\<close> of the poll handler: the rows that the chosen query yields.\<close>

definition rows_read :: "string \<Rightarrow> (string \<times> string) list \<Rightarrow> event list \<Rightarrow> event list option" where
  "rows_read hid q es =
     (if map_of q ''undelivered'' = Some ''true''
      then getUndeliveredEvents hid (req_query_limit q) es
      else getEvents hid (req_query_limit q) es)"

section \<open>Size of a body on the wire\<close>

text \<open>
  Number of bytes of the UTF-8 form of a string: one, two or three bytes for a code unit
  outside the surrogate range, four bytes for a surrogate pair (two for each half).  For a
  body sent as well-formed UTF-8 this is the number of bytes sent.
\<close>

definition utf8_bytes :: "16 word \<Rightarrow> nat" where
  "utf8_bytes u =
     (if u < 0x80 then 1
      else if u < 0x800 then 2
      else if 0xD800 \<le> u \<and> u < 0xE000 then 2
      else 3)"

definition utf8_length :: "jsstring \<Rightarrow> nat" where
  "utf8_length str = sum_list (map utf8_bytes str)"

section \<open>Environment and concrete inputs\<close>

text \<open>None of the next \<open>n\<close> statement executions raises.\<close>

definition no_fault :: "nat \<Rightarrow> store \<Rightarrow> bool" where
  "no_fault n s = (True \<notin> set (take n (faults s)))"

text \<open>A hook with default settings, a store that holds it, and a request with a JSON body.\<close>

definition ex_hook :: hook where
  "ex_hook = \<lparr>api_key = ''token-A'', name = None, description = None,
     delivery_method = ''poll'', delivery_config = None, created_at = 0,
     last_triggered_at = None, event_count = 0\<rparr>"

definition ex_store :: store where
  "ex_store = \<lparr>hooks = [''vgctbpvG0MFt'' \<mapsto> ex_hook], events = [], faults = []\<rparr>"

definition ex_request :: request where
  "ex_request = \<lparr>req_method = ''POST'',
     req_headers = [(''content-type'', ''application/json'')],
     req_query = [], req_text = Some [0x7B, 0x7D]\<rparr>"



definition ex_parse :: "jsstring \<Rightarrow> json option" where
  "ex_parse t = (if t = [0x7B, 0x7D] then Some (JObj []) else None)"


text \<open>A stand-in for \<open>JSON.stringify\<close> where its result does not matter.\<close>

definition ex_stringify :: "json \<Rightarrow> jsstring" where
  "ex_stringify j = []"

text \<open>
  The dispatcher of \<open>deliverEvent\<close> reaches the end of its \<open>switch\<close>: the configuration is
  present, \<open>JSON.parse\<close> accepts it, and the branch taken does not raise.
\<close>

definition dispatch_attempted :: "(jsstring \<Rightarrow> json option) \<Rightarrow> hook \<Rightarrow> bool" where
  "dispatch_attempted JSON_parse h =
     (case delivery_config h of
        None \<Rightarrow> False
      | Some cfg \<Rightarrow>
          (case JSON_parse cfg of
             None \<Rightarrow> False
           | Some config \<Rightarrow> cfg \<noteq> [] \<and> \<not> switch_raises (delivery_method h) config))"

text \<open>The ingestion handler calls the dispatcher and the dispatcher gets through.\<close>

definition dispatched :: "(jsstring \<Rightarrow> json option) \<Rightarrow> hook \<Rightarrow> bool" where
  "dispatched JSON_parse h = (delivery_method h \<noteq> ''poll'' \<and> dispatch_attempted JSON_parse h)"

text \<open>The result of \<open>verifyToken\<close> when the authority cannot be reached.\<close>

definition unavailable :: TokenValidation where
  "unavailable = \<lparr>valid = False, user_id = None, email = None, credits = None,
          error = Some ''Authentication service unavailable''\<rparr>"

text \<open>The cached result that \<open>verifyToken\<close> returns at this clock reading, if any.\<close>

definition fresh_entry :: "tokenCache \<Rightarrow> string \<Rightarrow> nat \<Rightarrow> TokenValidation option" where
  "fresh_entry cache tok clock =
     (case cache tok of
        None \<Rightarrow> None
      | Some cached \<Rightarrow> if expires cached > clock then Some (result cached) else None)"

text \<open>The authority never answers \<open>valid\<close> for the token, whatever the operation.\<close>

definition rejects :: "authority \<Rightarrow> string \<Rightarrow> bool" where
  "rejects auth tok =
     (\<forall>operation. case auth tok operation of Reply data \<Rightarrow> \<not> valid data | _ \<Rightarrow> True)"

text \<open>
  A run of the server: verifications one after the other, each with its clock reading,
  token and operation, on the cache the one before left.  For each the result and whether
  the authority was called.
\<close>

fun verify_seq ::
  "authority \<Rightarrow> tokenCache \<Rightarrow> (nat \<times> string \<times> string) list \<Rightarrow> (TokenValidation \<times> bool) list" where
  "verify_seq auth cache [] = []"
| "verify_seq auth cache ((clock, tok, operation) # calls) =
     (case verifyToken auth clock tok operation cache of
        (r, cache', called) \<Rightarrow> (r, called) # verify_seq auth cache' calls)"

text \<open>An authority that knows one token.\<close>

definition ex_validation :: TokenValidation where
  "ex_validation = \<lparr>valid = True, user_id = Some ''user-1'', email = None,
     credits = Some 10, error = None\<rparr>"

definition ex_authority :: authority where
  "ex_authority tok operation =
     (if tok = ''token-A'' then Reply ex_validation
      else Reply \<lparr>valid = False, user_id = None, email = None, credits = None,
                  error = Some ''Invalid token''\<rparr>)"

text \<open>
  A hook with 101 stored events, and a hook with one delivered and one undelivered event.
\<close>

definition ex_event :: "nat \<Rightarrow> event" where
  "ex_event i =
     \<lparr>event_id = ''y0HypLl8h3fzV'' @ [''0123456789'' ! (i div 100 mod 10),
                                       ''0123456789'' ! (i div 10 mod 10),
                                       ''0123456789'' ! (i mod 10)],
      hook_id = ''vgctbpvG0MFt'', http_method = ''POST'', headers = [], body = None,
      query_params = None, source_ip = None, received_at = i, delivered_at = None\<rparr>"

definition ex_crowded_store :: store where
  "ex_crowded_store =
     \<lparr>hooks = [''vgctbpvG0MFt'' \<mapsto> ex_hook], events = map ex_event [0..<101], faults = []\<rparr>"

definition ex_delivered :: event where
  "ex_delivered =
     \<lparr>event_id = ''y0HypLl8h3fzV001'', hook_id = ''vgctbpvG0MFt'', http_method = ''POST'',
      headers = [], body = None, query_params = None, source_ip = None, received_at = 1,
      delivered_at = Some 3\<rparr>"

definition ex_undelivered :: event where
  "ex_undelivered =
     \<lparr>event_id = ''y0HypLl8h3fzV002'', hook_id = ''vgctbpvG0MFt'', http_method = ''POST'',
      headers = [], body = None, query_params = None, source_ip = None, received_at = 2,
      delivered_at = None\<rparr>"

definition ex_polled_store :: store where
  "ex_polled_store =
     \<lparr>hooks = [''vgctbpvG0MFt'' \<mapsto> ex_hook],
      events = [ex_delivered, ex_undelivered], faults = []\<rparr>"

section \<open>Event Store: delivery marking\<close>

lemma markEventsDelivered_length: "length (markEventsDelivered t eid es) = length es"
  by (simp add: markEventsDelivered_def)

lemma markEventsDelivered_ids: "map event_id (markEventsDelivered t eid es) = map event_id es"
  by (simp add: markEventsDelivered_def)

text \<open>
  C1 (as stated, refuted): marking the same event at clock reading 1 and again at clock
  reading 2 leaves \<open>delivered_at\<close> at 2, not at the value 1 set by the first call.
\<close>

theorem markDelivered_twice_counterexample:
  "map delivered_at
     (markEventsDelivered 2 ''e1'' (markEventsDelivered 1 ''e1''
        [\<lparr>event_id = ''e1'', hook_id = ''h1'', http_method = ''POST'', headers = [], body = None,
          query_params = None, source_ip = None, received_at = 0, delivered_at = None\<rparr>]))
   \<noteq> map delivered_at
     (markEventsDelivered 1 ''e1''
        [\<lparr>event_id = ''e1'', hook_id = ''h1'', http_method = ''POST'', headers = [], body = None,
          query_params = None, source_ip = None, received_at = 0, delivered_at = None\<rparr>])"
  by (simp add: markEventsDelivered_def)

lemma markEventsDelivered_nth:
  assumes "i < length es"
  shows "markEventsDelivered t eid es ! i
     = (if event_id (es ! i) = eid then (es ! i)\<lparr>delivered_at := Some t\<rparr> else es ! i)"
  using assms by (simp add: markEventsDelivered_def)

text \<open>
  C1 (amended): the update is unconditional.  It is defined on every table and every id
  (it cannot fail on the data) and keeps the number and the order of the rows.  A row with
  another id is left as it is.  A row with the given id keeps every column but
  \<open>delivered_at\<close>, which becomes the clock reading of the call, whether or not it was set;
  after two calls it is the clock reading of the second call: the second call overwrites.
  Two calls at the same clock reading are idempotent.
\<close>

theorem markDelivered_last_call_wins:
  "markEventsDelivered t2 eid (markEventsDelivered t1 eid es) = markEventsDelivered t2 eid es
   \<and> map delivered_at (markEventsDelivered t2 eid es)
       = map (\<lambda>e. if event_id e = eid then Some t2 else delivered_at e) es
   \<and> markEventsDelivered t1 eid (markEventsDelivered t1 eid es) = markEventsDelivered t1 eid es
   \<and> length (markEventsDelivered t1 eid es) = length es
   \<and> (\<forall>i<length es. event_id (es ! i) \<noteq> eid \<longrightarrow>
         markEventsDelivered t1 eid es ! i = es ! i
         \<and> markEventsDelivered t2 eid (markEventsDelivered t1 eid es) ! i = es ! i)
   \<and> (\<forall>i<length es. event_id (es ! i) = eid \<longrightarrow>
         markEventsDelivered t1 eid es ! i = (es ! i)\<lparr>delivered_at := Some t1\<rparr>
         \<and> markEventsDelivered t2 eid (markEventsDelivered t1 eid es) ! i
             = (es ! i)\<lparr>delivered_at := Some t2\<rparr>)"
proof (intro conjI allI impI)
  show twice: "markEventsDelivered t2 eid (markEventsDelivered t1 eid es)
      = markEventsDelivered t2 eid es" for t1 t2
    by (simp add: markEventsDelivered_def comp_def if_distrib cong: if_cong)
  show "map delivered_at (markEventsDelivered t2 eid es)
       = map (\<lambda>e. if event_id e = eid then Some t2 else delivered_at e) es"
    by (simp add: markEventsDelivered_def comp_def if_distrib cong: if_cong)
  show "markEventsDelivered t1 eid (markEventsDelivered t1 eid es) = markEventsDelivered t1 eid es"
    by (rule twice)
  show "length (markEventsDelivered t1 eid es) = length es"
    by (simp add: markEventsDelivered_def)
  fix i
  assume i: "i < length es"
  {
    assume other: "event_id (es ! i) \<noteq> eid"
    from i other show "markEventsDelivered t1 eid es ! i = es ! i"
      by (simp add: markEventsDelivered_nth)
    from i other show "markEventsDelivered t2 eid (markEventsDelivered t1 eid es) ! i = es ! i"
      by (simp add: twice markEventsDelivered_nth)
  }
  {
    assume same: "event_id (es ! i) = eid"
    from i same show "markEventsDelivered t1 eid es ! i = (es ! i)\<lparr>delivered_at := Some t1\<rparr>"
      by (simp add: markEventsDelivered_nth)
    from i same show "markEventsDelivered t2 eid (markEventsDelivered t1 eid es) ! i
        = (es ! i)\<lparr>delivered_at := Some t2\<rparr>"
      by (simp add: twice markEventsDelivered_nth)
  }
qed

theorem markDelivered_last_call_wins_witness:
  "markEventsDelivered 8 ''y0HypLl8h3fzV002''
       (markEventsDelivered 7 ''y0HypLl8h3fzV002'' [ex_undelivered, ex_delivered]) ! 0
     = ex_undelivered\<lparr>delivered_at := Some 8\<rparr>
   \<and> markEventsDelivered 8 ''y0HypLl8h3fzV002''
       (markEventsDelivered 7 ''y0HypLl8h3fzV002'' [ex_undelivered, ex_delivered]) ! 1
     = ex_delivered
   \<and> length (markEventsDelivered 7 ''y0HypLl8h3fzV002'' [ex_undelivered, ex_delivered]) = 2"
proof -
  note last = markDelivered_last_call_wins [of 8 "''y0HypLl8h3fzV002''" 7
      "[ex_undelivered, ex_delivered]"]
  have ids: "event_id ([ex_undelivered, ex_delivered] ! 0) = ''y0HypLl8h3fzV002''"
    "event_id ([ex_undelivered, ex_delivered] ! 1) \<noteq> ''y0HypLl8h3fzV002''"
    by (simp_all add: ex_undelivered_def ex_delivered_def)
  from last have rows: "\<forall>i<length [ex_undelivered, ex_delivered].
      event_id ([ex_undelivered, ex_delivered] ! i) = ''y0HypLl8h3fzV002'' \<longrightarrow>
      markEventsDelivered 8 ''y0HypLl8h3fzV002''
        (markEventsDelivered 7 ''y0HypLl8h3fzV002'' [ex_undelivered, ex_delivered]) ! i
      = ([ex_undelivered, ex_delivered] ! i)\<lparr>delivered_at := Some 8\<rparr>"
    and others: "\<forall>i<length [ex_undelivered, ex_delivered].
      event_id ([ex_undelivered, ex_delivered] ! i) \<noteq> ''y0HypLl8h3fzV002'' \<longrightarrow>
      markEventsDelivered 8 ''y0HypLl8h3fzV002''
        (markEventsDelivered 7 ''y0HypLl8h3fzV002'' [ex_undelivered, ex_delivered]) ! i
      = [ex_undelivered, ex_delivered] ! i"
    and len: "length (markEventsDelivered 7 ''y0HypLl8h3fzV002'' [ex_undelivered, ex_delivered])
      = length [ex_undelivered, ex_delivered]"
    by blast+
  from rows ids(1) have "markEventsDelivered 8 ''y0HypLl8h3fzV002''
       (markEventsDelivered 7 ''y0HypLl8h3fzV002'' [ex_undelivered, ex_delivered]) ! 0
     = ex_undelivered\<lparr>delivered_at := Some 8\<rparr>"
    by force
  moreover from others ids(2) have "markEventsDelivered 8 ''y0HypLl8h3fzV002''
       (markEventsDelivered 7 ''y0HypLl8h3fzV002'' [ex_undelivered, ex_delivered]) ! 1
     = ex_delivered"
    by force
  moreover from len have "length (markEventsDelivered 7 ''y0HypLl8h3fzV002''
      [ex_undelivered, ex_delivered]) = 2"
    by simp
  ultimately show ?thesis
    by (intro conjI)
qed

section \<open>Statements and the ingestion route\<close>

lemma step_fault_tables [simp]:
  "events (snd (step_fault s)) = events s" "hooks (snd (step_fault s)) = hooks s"
  by (simp_all add: step_fault_def split: list.splits)

lemma no_fault_step:
  assumes "no_fault n s" and "0 < n"
  shows "\<not> fst (step_fault s)" and "no_fault (n - 1) (snd (step_fault s))"
proof -
  obtain m where n: "n = Suc m" using assms(2) by (cases n) auto
  show "\<not> fst (step_fault s)"
    using assms(1) by (cases "faults s") (auto simp: no_fault_def step_fault_def n)
  show "no_fault (n - 1) (snd (step_fault s))"
    using assms(1) by (cases "faults s") (auto simp: no_fault_def step_fault_def n)
qed

lemma no_fault_tables [simp]:
  "no_fault n (s\<lparr>events := es\<rparr>) = no_fault n s"
  "no_fault n (s\<lparr>hooks := hs\<rparr>) = no_fault n s"
  by (simp_all add: no_fault_def)

lemma no_fault_updateHookTrigger [simp]:
  "no_fault n (updateHookTrigger now hid s) = no_fault n s"
  by (simp add: updateHookTrigger_def split: option.splits)

lemma getHook_get_eq:
  "getHook_get hid s = (if fst (step_fault s) then None else Some (hooks s hid), snd (step_fault s))"
  by (simp add: getHook_get_def split_beta)

lemma createEvent_run_eq:
  "createEvent_run now eid hid m hs b qp ip s =
     (if fst (step_fault s) \<or> eid \<in> event_id ` set (events s) \<or> hooks s hid = None
      then (None, snd (step_fault s))
      else (Some (), (snd (step_fault s))\<lparr>events := events s @
             [\<lparr>event_id = eid, hook_id = hid, http_method = m, headers = hs, body = b,
               query_params = qp, source_ip = ip, received_at = now, delivered_at = None\<rparr>]\<rparr>))"
  by (auto simp add: createEvent_run_def createEvent_def split_beta)

lemma updateHookTrigger_run_eq:
  "updateHookTrigger_run now hid s =
     (if fst (step_fault s) then (None, snd (step_fault s))
      else (Some (), updateHookTrigger now hid (snd (step_fault s))))"
  by (simp add: updateHookTrigger_run_def split_beta)

lemma markEventsDelivered_run_eq:
  "markEventsDelivered_run now eid s =
     (if fst (step_fault s) then (None, snd (step_fault s))
      else (Some (), (snd (step_fault s))\<lparr>events := markEventsDelivered now eid (events s)\<rparr>))"
  by (simp add: markEventsDelivered_run_def split_beta)

lemma updateHookTrigger_events [simp]:
  "events (updateHookTrigger now hid s) = events s"
  by (simp add: updateHookTrigger_def split: option.splits)

lemma deliverEvent_events:
  "events (deliverEvent P now h eid s) = events s
   \<or> events (deliverEvent P now h eid s) = markEventsDelivered now eid (events s)"
  by (simp add: deliverEvent_def markEventsDelivered_run_eq split: option.splits)

lemma markEventsDelivered_keeps:
  "e \<in> set es \<Longrightarrow>
   \<exists>e' \<in> set (markEventsDelivered t eid es). event_id e' = event_id e \<and> hook_id e' = hook_id e \<and> body e' = body e"
proof -
  let ?f = "\<lambda>e. if event_id e = eid then e\<lparr>delivered_at := Some t\<rparr> else e"
  assume "e \<in> set es"
  then have "?f e \<in> set (markEventsDelivered t eid es)"
    by (simp add: markEventsDelivered_def)
  moreover have "event_id (?f e) = event_id e \<and> hook_id (?f e) = hook_id e \<and> body (?f e) = body e"
    by simp
  ultimately show ?thesis by blast
qed

lemma webhook_all_unknown:
  assumes "hooks s hid = None"
  shows "webhook_all S P now eid hid req s = (c_json (Received True None) 200, snd (step_fault s))"
  using assms by (simp add: webhook_all_def getHook_get_eq)


lemma webhook_all_eq:
  "webhook_all S P now eid hid req s =
    (let s1 = snd (step_fault s);
         new = \<lparr>event_id = eid, hook_id = hid, http_method = req_method req,
                headers = stored_headers req, body = stored_body S req,
                query_params = (if queryParams req \<noteq> [] then Some (queryParams req) else None),
                source_ip = sourceIp req, received_at = now, delivered_at = None\<rparr>;
         s2 = (snd (step_fault s1))\<lparr>events := events s @ [new]\<rparr>;
         s3 = updateHookTrigger now hid (snd (step_fault s2))
     in if fst (step_fault s) \<or> hooks s hid = None then (c_json (Received True None) 200, s1)
        else if fst (step_fault s1) \<or> eid \<in> event_id ` set (events s)
          then (c_json (Received True None) 200, snd (step_fault s1))
        else if fst (step_fault s2) then (c_json (Received True None) 200, snd (step_fault s2))
        else (c_json (Received True (Some eid)) 200,
              case hooks s hid of None \<Rightarrow> s3 | Some h \<Rightarrow>
                if delivery_method h \<noteq> ''poll'' \<and> truthy (delivery_config h)
                then deliverEvent P now h eid s3 else s3))"
  by (simp add: webhook_all_def getHook_get_eq createEvent_run_eq updateHookTrigger_run_eq Let_def
       split: option.splits)


lemma deliverEvent_keeps:
  assumes "e \<in> set (events s)"
  shows "\<exists>e' \<in> set (events (deliverEvent P now h eid s)).
           event_id e' = event_id e \<and> hook_id e' = hook_id e \<and> body e' = body e"
  using deliverEvent_events [of P now h eid s] markEventsDelivered_keeps [OF assms] assms
  by auto

lemma no_fault_0 [simp]: "no_fault 0 s"
  by (simp add: no_fault_def)

lemma no_fault_Suc:
  "no_fault (Suc n) s = (\<not> fst (step_fault s) \<and> no_fault n (snd (step_fault s)))"
  by (cases "faults s") (auto simp add: no_fault_def step_fault_def)

lemma step_fault_events_update [simp]:
  "fst (step_fault (s\<lparr>events := es\<rparr>)) = fst (step_fault s)"
  "snd (step_fault (s\<lparr>events := es\<rparr>)) = (snd (step_fault s))\<lparr>events := es\<rparr>"
  by (simp_all add: step_fault_def split: list.splits)

lemma no_fault_2:
  "no_fault 2 s = (\<not> fst (step_fault s) \<and> \<not> fst (step_fault (snd (step_fault s))))"
  by (simp add: numeral_2_eq_2 no_fault_Suc)

lemma no_fault_3:
  "no_fault 3 s = (\<not> fst (step_fault s) \<and> \<not> fst (step_fault (snd (step_fault s)))
     \<and> \<not> fst (step_fault (snd (step_fault (snd (step_fault s))))))"
  by (simp add: numeral_3_eq_3 no_fault_Suc)

text \<open>
  C2 (as stated, refuted): the hook exists, the \<open>INSERT\<close> of the event succeeds and the
  \<open>UPDATE\<close> of the trigger statistics raises.  The row is stored, and the answer carries no
  \<open>event_id\<close>.
\<close>

theorem stored_without_event_id_counterexample:
  "payload (fst (webhook_all (\<lambda>j. []) (\<lambda>t. None) 5 ''y0HypLl8h3fzVrdu'' ''vgctbpvG0MFt''
              ex_request (ex_store\<lparr>faults := [False, False, True]\<rparr>))) = Received True None
   \<and> map event_id (events (snd (webhook_all (\<lambda>j. []) (\<lambda>t. None) 5 ''y0HypLl8h3fzVrdu''
              ''vgctbpvG0MFt'' ex_request (ex_store\<lparr>faults := [False, False, True]\<rparr>))))
       = [''y0HypLl8h3fzVrdu'']
   \<and> map hook_id (events (snd (webhook_all (\<lambda>j. []) (\<lambda>t. None) 5 ''y0HypLl8h3fzVrdu''
              ''vgctbpvG0MFt'' ex_request (ex_store\<lparr>faults := [False, False, True]\<rparr>))))
       = [''vgctbpvG0MFt'']
   \<and> events (ex_store\<lparr>faults := [False, False, True]\<rparr>) = []"
  by (simp add: webhook_all_eq Let_def c_json_def ex_store_def step_fault_def)

text \<open>
  C2 (amended): the ingestion handler answers status 200 with \<open>received: true\<close> on every
  request and every store, whatever statement raises.  Without a hook of that id the answer
  has no \<open>event_id\<close> and the tables are left as they were.  An answer that carries an
  \<open>event_id\<close> carries the id of a row that the request added.  The answer carries the id
  exactly when the hook exists, the id is fresh and none of the three statements of the
  handler (the \<open>SELECT\<close> of the hook, the \<open>INSERT\<close> of the event, the \<open>UPDATE\<close> of the
  trigger statistics) raises.  A stored row alone is not enough: when the first two succeed
  and the \<open>UPDATE\<close> raises, the row of the request is appended to the table and the answer
  has no \<open>event_id\<close>.  When one of the first two raises or the id is taken, no row is added.
\<close>

theorem ingestion_always_acknowledges:
  assumes run: "webhook_all S P now eid hid req s = (r, s')"
  shows "status r = 200
     \<and> (payload r = Received True None \<or> payload r = Received True (Some eid))
     \<and> (hooks s hid = None \<longrightarrow>
          payload r = Received True None \<and> events s' = events s \<and> hooks s' = hooks s)
     \<and> (payload r = Received True (Some eid) \<longrightarrow>
          eid \<notin> event_id ` set (events s)
          \<and> (\<exists>e\<in>set (events s'). event_id e = eid \<and> hook_id e = hid
                \<and> body e = stored_body S req))
     \<and> (hooks s hid \<noteq> None \<and> eid \<notin> event_id ` set (events s) \<and> no_fault 3 s \<longrightarrow>
          payload r = Received True (Some eid))
     \<and> (payload r = Received True (Some eid) \<longrightarrow> hooks s hid \<noteq> None \<and> no_fault 3 s)
     \<and> (hooks s hid \<noteq> None \<and> eid \<notin> event_id ` set (events s) \<and> no_fault 2 s
          \<and> \<not> no_fault 3 s \<longrightarrow>
          payload r = Received True None
          \<and> events s' = events s @ [ingested_row S now eid hid req]
          \<and> hooks s' = hooks s)
     \<and> (\<not> no_fault 2 s \<or> eid \<in> event_id ` set (events s) \<longrightarrow>
          payload r = Received True None \<and> events s' = events s \<and> hooks s' = hooks s)"
proof (intro conjI impI)
  show "status r = 200"
    using run by (auto simp add: webhook_all_eq Let_def c_json_def split: if_splits)
  show "payload r = Received True None \<or> payload r = Received True (Some eid)"
    using run by (auto simp add: webhook_all_eq Let_def c_json_def split: if_splits)
next
  assume "hooks s hid = None"
  then have "webhook_all S P now eid hid req s = (c_json (Received True None) 200, snd (step_fault s))"
    by (rule webhook_all_unknown)
  with run have "r = c_json (Received True None) 200" and "s' = snd (step_fault s)"
    by simp_all
  then show "payload r = Received True None" "events s' = events s" "hooks s' = hooks s"
    by (simp_all add: c_json_def)
next
  assume stored: "payload r = Received True (Some eid)"
  let ?new = "\<lparr>event_id = eid, hook_id = hid, http_method = req_method req,
      headers = stored_headers req, body = stored_body S req,
      query_params = (if queryParams req \<noteq> [] then Some (queryParams req) else None),
      source_ip = sourceIp req, received_at = now, delivered_at = None\<rparr>"
  let ?s2 = "(snd (step_fault (snd (step_fault s))))\<lparr>events := events s @ [?new]\<rparr>"
  let ?s3 = "updateHookTrigger now hid (snd (step_fault ?s2))"
  from run stored show "eid \<notin> event_id ` set (events s)"
    by (auto simp add: webhook_all_eq Let_def c_json_def split: if_splits)
  from run stored have "s' = ?s3 \<or> (\<exists>h. s' = deliverEvent P now h eid ?s3)"
    by (auto simp add: webhook_all_eq Let_def c_json_def split: if_splits option.splits)
  moreover have new: "?new \<in> set (events ?s3)"
    by simp
  ultimately show "\<exists>e\<in>set (events s'). event_id e = eid \<and> hook_id e = hid
      \<and> body e = stored_body S req"
    using deliverEvent_keeps [OF new] by fastforce
next
  assume ok: "hooks s hid \<noteq> None \<and> eid \<notin> event_id ` set (events s) \<and> no_fault 3 s"
  with run show "payload r = Received True (Some eid)"
    by (auto simp add: webhook_all_eq Let_def c_json_def no_fault_3)
next
  assume stored: "payload r = Received True (Some eid)"
  with run show "hooks s hid \<noteq> None"
    by (auto simp add: webhook_all_eq Let_def c_json_def split: if_splits)
  from run stored show "no_fault 3 s"
    by (auto simp add: webhook_all_eq Let_def c_json_def no_fault_3 split: if_splits)
next
  assume half: "hooks s hid \<noteq> None \<and> eid \<notin> event_id ` set (events s) \<and> no_fault 2 s
      \<and> \<not> no_fault 3 s"
  then have flags: "\<not> fst (step_fault s)" "\<not> fst (step_fault (snd (step_fault s)))"
      "fst (step_fault (snd (step_fault (snd (step_fault s)))))"
    by (auto simp add: no_fault_2 no_fault_3)
  from run half flags have r: "r = c_json (Received True None) 200"
    and s': "s' = (snd (step_fault (snd (step_fault (snd (step_fault s))))))
        \<lparr>events := events s @ [ingested_row S now eid hid req]\<rparr>"
    by (auto simp add: webhook_all_eq Let_def ingested_row_def)
  from r show "payload r = Received True None"
    by (simp add: c_json_def)
  from s' show "events s' = events s @ [ingested_row S now eid hid req]"
    by simp
  from s' show "hooks s' = hooks s"
    by simp
next
  assume none: "\<not> no_fault 2 s \<or> eid \<in> event_id ` set (events s)"
  with run have "r = c_json (Received True None) 200
      \<and> (s' = snd (step_fault s) \<or> s' = snd (step_fault (snd (step_fault s))))"
    by (auto simp add: webhook_all_eq Let_def no_fault_2 split: if_splits)
  then show "payload r = Received True None" "events s' = events s" "hooks s' = hooks s"
    by (auto simp add: c_json_def)
qed

theorem ingestion_always_acknowledges_witness:
  "payload (fst (webhook_all (\<lambda>j. []) (\<lambda>t. None) 5 ''y0HypLl8h3fzVrdu'' ''vgctbpvG0MFt''
              ex_request ex_store)) = Received True (Some ''y0HypLl8h3fzVrdu'')
   \<and> payload (fst (webhook_all (\<lambda>j. []) (\<lambda>t. None) 5 ''y0HypLl8h3fzVrdu'' ''unknownhook0''
              ex_request ex_store)) = Received True None
   \<and> events (snd (webhook_all (\<lambda>j. []) (\<lambda>t. None) 5 ''y0HypLl8h3fzVrdu'' ''unknownhook0''
              ex_request ex_store)) = []
   \<and> payload (fst (webhook_all (\<lambda>j. []) (\<lambda>t. None) 5 ''y0HypLl8h3fzVrdu'' ''vgctbpvG0MFt''
              ex_request (ex_store\<lparr>faults := [False, False, True]\<rparr>))) = Received True None
   \<and> events (snd (webhook_all (\<lambda>j. []) (\<lambda>t. None) 5 ''y0HypLl8h3fzVrdu'' ''vgctbpvG0MFt''
              ex_request (ex_store\<lparr>faults := [False, False, True]\<rparr>)))
       = [ingested_row (\<lambda>j. []) 5 ''y0HypLl8h3fzVrdu'' ''vgctbpvG0MFt'' ex_request]
   \<and> events (snd (webhook_all (\<lambda>j. []) (\<lambda>t. None) 5 ''y0HypLl8h3fzVrdu'' ''vgctbpvG0MFt''
              ex_request (ex_store\<lparr>faults := [False, True]\<rparr>))) = []"
  using
    ingestion_always_acknowledges [of "\<lambda>j. []" "\<lambda>t. None" 5 "''y0HypLl8h3fzVrdu''"
      "''vgctbpvG0MFt''" ex_request ex_store
      "fst (webhook_all (\<lambda>j. []) (\<lambda>t. None) 5 ''y0HypLl8h3fzVrdu'' ''vgctbpvG0MFt'' ex_request ex_store)"
      "snd (webhook_all (\<lambda>j. []) (\<lambda>t. None) 5 ''y0HypLl8h3fzVrdu'' ''vgctbpvG0MFt'' ex_request ex_store)"]
    ingestion_always_acknowledges [of "\<lambda>j. []" "\<lambda>t. None" 5 "''y0HypLl8h3fzVrdu''"
      "''unknownhook0''" ex_request ex_store
      "fst (webhook_all (\<lambda>j. []) (\<lambda>t. None) 5 ''y0HypLl8h3fzVrdu'' ''unknownhook0'' ex_request ex_store)"
      "snd (webhook_all (\<lambda>j. []) (\<lambda>t. None) 5 ''y0HypLl8h3fzVrdu'' ''unknownhook0'' ex_request ex_store)"]
    ingestion_always_acknowledges [of "\<lambda>j. []" "\<lambda>t. None" 5 "''y0HypLl8h3fzVrdu''"
      "''vgctbpvG0MFt''" ex_request "ex_store\<lparr>faults := [False, False, True]\<rparr>"
      "fst (webhook_all (\<lambda>j. []) (\<lambda>t. None) 5 ''y0HypLl8h3fzVrdu'' ''vgctbpvG0MFt'' ex_request
         (ex_store\<lparr>faults := [False, False, True]\<rparr>))"
      "snd (webhook_all (\<lambda>j. []) (\<lambda>t. None) 5 ''y0HypLl8h3fzVrdu'' ''vgctbpvG0MFt'' ex_request
         (ex_store\<lparr>faults := [False, False, True]\<rparr>))"]
    ingestion_always_acknowledges [of "\<lambda>j. []" "\<lambda>t. None" 5 "''y0HypLl8h3fzVrdu''"
      "''vgctbpvG0MFt''" ex_request "ex_store\<lparr>faults := [False, True]\<rparr>"
      "fst (webhook_all (\<lambda>j. []) (\<lambda>t. None) 5 ''y0HypLl8h3fzVrdu'' ''vgctbpvG0MFt'' ex_request
         (ex_store\<lparr>faults := [False, True]\<rparr>))"
      "snd (webhook_all (\<lambda>j. []) (\<lambda>t. None) 5 ''y0HypLl8h3fzVrdu'' ''vgctbpvG0MFt'' ex_request
         (ex_store\<lparr>faults := [False, True]\<rparr>))"]
  by (simp add: ex_store_def no_fault_def)


section \<open>Hook registry: get and delete\<close>

lemma deleteHook_run_eq:
  "deleteHook_run hid tok s =
     (if fst (step_fault s) then (None, snd (step_fault s))
      else (Some (fst (deleteHook hid tok (snd (step_fault s)))),
            snd (deleteHook hid tok (snd (step_fault s)))))"
  by (simp add: deleteHook_run_def split_beta)

lemma hooks_delete_never_forbidden:
  "status (fst (hooks_delete tok hid s)) \<in> {200, 404, 500}"
  by (simp add: hooks_delete_def deleteHook_run_eq c_json_def)

text \<open>
  C3: for a hook that exists and a token other than its owner's, reading the hook is
  answered 403 and deleting it is answered 404, and the delete leaves the tables as they
  were; for an id without a hook both are answered 404 (each when the statement of the
  store does not raise).  Whatever happens, a delete is never answered 403.
\<close>

theorem get_forbidden_delete_not_found:
  "(hooks s hid = Some h \<and> api_key h \<noteq> tok \<and> no_fault 1 s \<longrightarrow>
       fst (hooks_get P U tok hid s) = c_json (Failure ''Unauthorized'') 403
     \<and> fst (hooks_delete tok hid s) = c_json (Failure ''Webhook not found or unauthorized'') 404
     \<and> hooks (snd (hooks_delete tok hid s)) = hooks s
     \<and> events (snd (hooks_delete tok hid s)) = events s)
   \<and> (hooks s hid = None \<and> no_fault 1 s \<longrightarrow>
       fst (hooks_get P U tok hid s) = c_json (Failure ''Webhook not found'') 404
     \<and> fst (hooks_delete tok hid s) = c_json (Failure ''Webhook not found or unauthorized'') 404)
   \<and> status (fst (hooks_delete tok hid s)) \<noteq> 403"
proof (intro conjI impI)
  assume a: "hooks s hid = Some h \<and> api_key h \<noteq> tok \<and> no_fault 1 s"
  then have nf: "\<not> fst (step_fault s)"
    using no_fault_step(1) [of 1 s] by simp
  from a nf show "fst (hooks_get P U tok hid s) = c_json (Failure ''Unauthorized'') 403"
    by (simp add: hooks_get_def getHook_get_eq)
  from a have del: "deleteHook hid tok (snd (step_fault s)) = (0, snd (step_fault s))"
    by (simp add: deleteHook_def)
  from nf del show "fst (hooks_delete tok hid s) = c_json (Failure ''Webhook not found or unauthorized'') 404"
    by (simp add: hooks_delete_def deleteHook_run_eq)
  from nf del show "hooks (snd (hooks_delete tok hid s)) = hooks s"
    and "events (snd (hooks_delete tok hid s)) = events s"
    by (simp_all add: hooks_delete_def deleteHook_run_eq)
next
  assume a: "hooks s hid = None \<and> no_fault 1 s"
  then have nf: "\<not> fst (step_fault s)"
    using no_fault_step(1) [of 1 s] by simp
  from a nf show "fst (hooks_get P U tok hid s) = c_json (Failure ''Webhook not found'') 404"
    by (simp add: hooks_get_def getHook_get_eq)
  from a have del: "deleteHook hid tok (snd (step_fault s)) = (0, snd (step_fault s))"
    by (simp add: deleteHook_def)
  from nf del show "fst (hooks_delete tok hid s) = c_json (Failure ''Webhook not found or unauthorized'') 404"
    by (simp add: hooks_delete_def deleteHook_run_eq)
next
  show "status (fst (hooks_delete tok hid s)) \<noteq> 403"
    using hooks_delete_never_forbidden [of tok hid s] by auto
qed

theorem get_forbidden_delete_not_found_witness:
  "fst (hooks_get (\<lambda>t. None) None ''token-B'' ''vgctbpvG0MFt'' ex_store)
     = c_json (Failure ''Unauthorized'') 403
   \<and> fst (hooks_delete ''token-B'' ''vgctbpvG0MFt'' ex_store)
     = c_json (Failure ''Webhook not found or unauthorized'') 404
   \<and> fst (hooks_get (\<lambda>t. None) None ''token-B'' ''unknownhook0'' ex_store)
     = c_json (Failure ''Webhook not found'') 404"
  using get_forbidden_delete_not_found [of ex_store "''vgctbpvG0MFt''" ex_hook "''token-B''" "\<lambda>t. None" None]
    get_forbidden_delete_not_found [of ex_store "''unknownhook0''" ex_hook "''token-B''" "\<lambda>t. None" None]
  by (simp add: ex_store_def ex_hook_def no_fault_def)

section \<open>Body truncation\<close>

lemma utf8_length_replicate: "utf8_length (replicate n u) = n * utf8_bytes u"
  by (simp add: utf8_length_def sum_list_replicate)

lemma utf8_length_ascii:
  assumes "\<forall>u\<in>set str. u < 0x80"
  shows "utf8_length str = length str"
  using assms by (induction str) (simp_all add: utf8_length_def utf8_bytes_def)

lemma stored_body_cases:
  assumes "req_method req \<in> set [''POST'', ''PUT'', ''PATCH'']" and "req_text req = Some rawBody"
  shows "stored_body S req =
     (if length rawBody \<le> 102400 then Some rawBody
      else Some (S (JObj [(''_truncated'', JBool True),
                          (''_original_size'', JNum (int (length rawBody))),
                          (''_preview'', JStr (take 1000 rawBody))])))"
  using assms by (simp add: stored_body_def MAX_BODY_SIZE_def truncation_marker_def)

text \<open>
  C5 (code at the failing input): a POST whose body is 102401 times the letter U+00E9.  The
  body is 204802 bytes of UTF-8, the stored marker says \<open>_original_size = 102401\<close>, the
  number of UTF-16 code units.  A body of 60000 such letters is 120000 bytes, above the
  ceiling of 102400 bytes, and is stored as it is.
\<close>

theorem original_size_counts_code_units:
  "map body (events (snd (webhook_all S P 5 ''y0HypLl8h3fzVrdu'' ''vgctbpvG0MFt''
       (ex_request\<lparr>req_text := Some (replicate 102401 0xE9)\<rparr>) ex_store)))
     = [Some (S (JObj [(''_truncated'', JBool True), (''_original_size'', JNum 102401),
                       (''_preview'', JStr (replicate 1000 0xE9))]))]
   \<and> utf8_length (replicate 102401 0xE9) = 204802
   \<and> map body (events (snd (webhook_all S P 5 ''y0HypLl8h3fzVrdu'' ''vgctbpvG0MFt''
       (ex_request\<lparr>req_text := Some (replicate 60000 0xE9)\<rparr>) ex_store)))
     = [Some (replicate 60000 0xE9)]
   \<and> utf8_length (replicate 60000 0xE9) = 120000
   \<and> MAX_BODY_SIZE = 102400"
proof -
  have big: "stored_body S (ex_request\<lparr>req_text := Some (replicate 102401 0xE9)\<rparr>)
      = Some (S (JObj [(''_truncated'', JBool True), (''_original_size'', JNum 102401),
                       (''_preview'', JStr (replicate 1000 0xE9))]))"
    by (simp add: stored_body_def ex_request_def MAX_BODY_SIZE_def truncation_marker_def)
  have small: "stored_body S (ex_request\<lparr>req_text := Some (replicate 60000 0xE9)\<rparr>)
      = Some (replicate 60000 0xE9)"
    by (simp add: stored_body_def ex_request_def MAX_BODY_SIZE_def)
  have bytes: "utf8_bytes 0xE9 = 2"
    by (simp add: utf8_bytes_def)
  have nf: "\<not> fst (step_fault ex_store)" "snd (step_fault ex_store) = ex_store"
    by (simp_all add: step_fault_def ex_store_def)
  have nf2: "\<not> fst (step_fault (ex_store\<lparr>events := es\<rparr>))"
     "snd (step_fault (ex_store\<lparr>events := es\<rparr>)) = ex_store\<lparr>events := es\<rparr>" for es
    by (simp_all add: step_fault_def ex_store_def)
  have hk: "hooks ex_store ''vgctbpvG0MFt'' = Some ex_hook" "events ex_store = []"
    by (simp_all add: ex_store_def)
  have poll: "delivery_method ex_hook = ''poll''"
    by (simp add: ex_hook_def)
  show ?thesis
    by (simp add: webhook_all_eq Let_def nf nf2 hk poll big small utf8_length_replicate bytes
        MAX_BODY_SIZE_def)
qed


section \<open>Credential cache\<close>

lemma verifyToken_hit:
  assumes "tok \<noteq> []" and "cache tok = Some c" and "expires c > clock"
  shows "verifyToken auth clock tok operation cache = (result c, cache, False)"
  using assms by (simp add: verifyToken_def)

lemma verifyToken_miss:
  assumes "tok \<noteq> []" and "fresh_entry cache tok clock = None"
  shows "verifyToken auth clock tok operation cache =
     (case auth tok operation of
        Reply data \<Rightarrow>
          (data, if valid data
                 then cache(tok \<mapsto> \<lparr>result = data, expires = clock + 60000\<rparr>) else cache, True)
      | _ \<Rightarrow> (\<lparr>valid = False, user_id = None, email = None, credits = None,
          error = Some ''Authentication service unavailable''\<rparr>, cache, True))"
  using assms by (simp add: verifyToken_def fresh_entry_def TOKEN_CACHE_TTL_def split: authority_reply.splits)

lemma verifyToken_called:
  assumes "verifyToken auth clock tok operation cache = (r, cache', True)" and "valid r"
  shows "cache' tok = Some \<lparr>result = r, expires = clock + 60000\<rparr>"
  using assms
  by (auto simp add: verifyToken_def TOKEN_CACHE_TTL_def split: if_splits option.splits authority_reply.splits)

lemma verifyToken_invalid:
  assumes "verifyToken auth clock tok operation cache = (r, cache', called)" and "\<not> valid r"
  shows "cache' = cache"
  using assms
  by (auto simp add: verifyToken_def split: if_splits option.splits authority_reply.splits)

lemma verifyToken_other:
  assumes "t \<noteq> tok"
  shows "fst (snd (verifyToken auth clock t operation cache)) tok = cache tok"
  using assms
  by (auto simp add: verifyToken_def split: if_splits option.splits authority_reply.splits)

lemma verifyToken_rejected:
  assumes "tok \<noteq> []" and "cache tok = None" and "rejects auth tok"
  shows "\<exists>r. verifyToken auth clock tok operation cache = (r, cache, True) \<and> \<not> valid r"
proof -
  have miss: "fresh_entry cache tok clock = None"
    using assms(2) by (simp add: fresh_entry_def)
  from assms(3) have "case auth tok operation of Reply data \<Rightarrow> \<not> valid data | _ \<Rightarrow> True"
    by (simp add: rejects_def)
  then show ?thesis
    by (cases "auth tok operation") (simp_all add: verifyToken_miss [OF assms(1) miss])
qed

lemma verify_seq_rejected:
  assumes "tok \<noteq> []" and "rejects auth tok"
  shows "cache tok = None \<Longrightarrow> i < length calls \<Longrightarrow> fst (snd (calls ! i)) = tok \<Longrightarrow>
     snd (verify_seq auth cache calls ! i) \<and> \<not> valid (fst (verify_seq auth cache calls ! i))"
proof (induction calls arbitrary: cache i)
  case Nil
  then show ?case by simp
next
  case (Cons c calls)
  obtain clock t operation where c: "c = (clock, t, operation)"
    by (cases c) auto
  obtain r cache' called where v: "verifyToken auth clock t operation cache = (r, cache', called)"
    by (cases "verifyToken auth clock t operation cache") auto
  have keep: "cache' tok = None"
  proof (cases "t = tok")
    case True
    with verifyToken_rejected [of tok cache auth clock operation] assms v
    show ?thesis using Cons.prems(1) by auto
  next
    case False
    with verifyToken_other [of t tok auth clock operation cache] v Cons.prems(1)
    show ?thesis by simp
  qed
  show ?case
  proof (cases i)
    case 0
    with Cons.prems c have "t = tok" by simp
    with verifyToken_rejected [of tok cache auth clock operation] assms Cons.prems(1) v 0 c
    show ?thesis by auto
  next
    case (Suc j)
    with Cons.prems have "j < length calls" "fst (snd (calls ! j)) = tok" by simp_all
    with keep have "snd (verify_seq auth cache' calls ! j)
        \<and> \<not> valid (fst (verify_seq auth cache' calls ! j))"
      using Cons.IH [of cache' j] by simp
    then show ?thesis
      using Suc c v by simp
  qed
qed

lemma verify_seq_cached:
  assumes "tok \<noteq> []"
  shows "cache tok = Some \<lparr>result = r, expires = e\<rparr> \<Longrightarrow> \<forall>c\<in>set calls. fst c < e \<Longrightarrow>
     i < length calls \<Longrightarrow> fst (snd (calls ! i)) = tok \<Longrightarrow>
     verify_seq auth cache calls ! i = (r, False)"
proof (induction calls arbitrary: cache i)
  case Nil
  then show ?case by simp
next
  case (Cons c calls)
  obtain clock t operation where c: "c = (clock, t, operation)"
    by (cases c) auto
  obtain r' cache' called where v: "verifyToken auth clock t operation cache = (r', cache', called)"
    by (cases "verifyToken auth clock t operation cache") auto
  from Cons.prems(2) c have early: "clock < e" and rest: "\<forall>c\<in>set calls. fst c < e"
    by simp_all
  have hit: "r' = r \<and> cache' = cache \<and> \<not> called" if "t = tok"
    using verifyToken_hit [of tok cache "\<lparr>result = r, expires = e\<rparr>" clock auth operation]
      assms Cons.prems(1) early v that by simp
  have keep: "cache' tok = Some \<lparr>result = r, expires = e\<rparr>"
  proof (cases "t = tok")
    case True
    with hit Cons.prems(1) show ?thesis by simp
  next
    case False
    with verifyToken_other [of t tok auth clock operation cache] v Cons.prems(1)
    show ?thesis by simp
  qed
  show ?case
  proof (cases i)
    case 0
    with Cons.prems c have "t = tok" by simp
    with hit 0 c v show ?thesis by simp
  next
    case (Suc j)
    with Cons.prems have "j < length calls" "fst (snd (calls ! j)) = tok" by simp_all
    with keep rest have "verify_seq auth cache' calls ! j = (r, False)"
      using Cons.IH [of cache' j] by simp
    then show ?thesis
      using Suc c v by simp
  qed
qed

lemma verifyToken_fresh:
  assumes "tok \<noteq> []" and "fresh_entry cache tok clock = Some data"
  shows "verifyToken auth clock tok operation cache = (data, cache, False)"
  using assms by (simp add: verifyToken_def fresh_entry_def)

lemma verifyToken_rejected_value:
  assumes "tok \<noteq> []" and "cache tok = None" and "rejects auth tok"
  shows "verifyToken auth clock tok operation cache
     = (case auth tok operation of Reply data \<Rightarrow> data | _ \<Rightarrow> unavailable, cache, True)"
proof -
  have miss: "fresh_entry cache tok clock = None"
    using assms(2) by (simp add: fresh_entry_def)
  from assms(3) have "case auth tok operation of Reply data \<Rightarrow> \<not> valid data | _ \<Rightarrow> True"
    by (simp add: rejects_def)
  then show ?thesis
    by (cases "auth tok operation")
      (simp_all add: verifyToken_miss [OF assms(1) miss] unavailable_def)
qed

lemma verify_seq_rejected_value:
  assumes "tok \<noteq> []" and "rejects auth tok"
  shows "cache tok = None \<Longrightarrow> i < length calls \<Longrightarrow> fst (snd (calls ! i)) = tok \<Longrightarrow>
     verify_seq auth cache calls ! i
       = (case auth tok (snd (snd (calls ! i))) of Reply data \<Rightarrow> data | _ \<Rightarrow> unavailable, True)"
proof (induction calls arbitrary: cache i)
  case Nil
  then show ?case by simp
next
  case (Cons c calls)
  obtain clock t operation where c: "c = (clock, t, operation)"
    by (cases c) auto
  obtain r cache' called where v: "verifyToken auth clock t operation cache = (r, cache', called)"
    by (cases "verifyToken auth clock t operation cache") auto
  have keep: "cache' tok = None"
  proof (cases "t = tok")
    case True
    with verifyToken_rejected_value [of tok cache auth clock operation] assms v
    show ?thesis using Cons.prems(1) by simp
  next
    case False
    with verifyToken_other [of t tok auth clock operation cache] v Cons.prems(1)
    show ?thesis by simp
  qed
  show ?case
  proof (cases i)
    case 0
    with Cons.prems c have "t = tok" by simp
    with verifyToken_rejected_value [of tok cache auth clock operation] assms Cons.prems(1) v 0 c
    show ?thesis by simp
  next
    case (Suc j)
    with Cons.prems have "j < length calls" "fst (snd (calls ! j)) = tok" by simp_all
    with keep have "verify_seq auth cache' calls ! j
        = (case auth tok (snd (snd (calls ! j))) of Reply data \<Rightarrow> data | _ \<Rightarrow> unavailable, True)"
      using Cons.IH [of cache' j] by simp
    then show ?thesis
      using Suc c v by simp
  qed
qed

text \<open>
  C6: a token is a non-empty string (for the empty string \<open>verifyToken\<close> answers
  "No token provided" itself).  When the cache has no fresh entry for the token at clock
  reading \<open>t0\<close> and the authority answers with a validation \<open>data\<close>, the authority is called
  and \<open>data\<close> is returned.  If \<open>data\<close> is valid, the cache afterwards is the cache before
  with the entry \<open>data\<close>, expiring at \<open>t0 + 60000\<close>, for the token; then in any run of
  verifications that all happen before \<open>t0 + 60000\<close> every verification of that token returns
  \<open>data\<close> and does not call the authority, whatever the authority would say by then.  If
  \<open>data\<close> is not valid, the cache afterwards is the cache before.  A fresh entry is returned
  as it is, without a call and without a change of the cache.  In any run on a cache without
  an entry for a token that the authority never accepts, every verification of that token
  calls the authority and returns its answer (the "unavailable" validation when the call
  fails), which is not valid.
\<close>

theorem verify_cache_positive_only:
  assumes ne: "tok \<noteq> []"
  shows "(verifyToken auth t0 tok op0 cache = (r, cache', True) \<and> valid r
            \<and> (\<forall>c\<in>set calls. fst c < t0 + 60000)
            \<and> i < length calls \<and> fst (snd (calls ! i)) = tok \<longrightarrow>
            verify_seq auth' cache' calls ! i = (r, False))
       \<and> (verifyToken auth t0 tok op0 cache = (r, cache', called) \<and> \<not> valid r \<longrightarrow> cache' = cache)
       \<and> (rejects auth tok \<and> cache tok = None \<and> i < length calls
            \<and> fst (snd (calls ! i)) = tok \<longrightarrow>
            snd (verify_seq auth cache calls ! i) \<and> \<not> valid (fst (verify_seq auth cache calls ! i)))
       \<and> (fresh_entry cache tok t0 = None \<and> auth tok op0 = Reply data \<and> valid data \<longrightarrow>
            verifyToken auth t0 tok op0 cache
              = (data, cache(tok \<mapsto> \<lparr>result = data, expires = t0 + 60000\<rparr>), True))
       \<and> (fresh_entry cache tok t0 = None \<and> auth tok op0 = Reply data \<and> valid data
            \<and> (\<forall>c\<in>set calls. fst c < t0 + 60000)
            \<and> i < length calls \<and> fst (snd (calls ! i)) = tok \<longrightarrow>
            verify_seq auth' (fst (snd (verifyToken auth t0 tok op0 cache))) calls ! i
              = (data, False))
       \<and> (fresh_entry cache tok t0 = None \<and> auth tok op0 = Reply data \<and> \<not> valid data \<longrightarrow>
            verifyToken auth t0 tok op0 cache = (data, cache, True))
       \<and> (fresh_entry cache tok t0 = Some data \<longrightarrow>
            verifyToken auth t0 tok op0 cache = (data, cache, False))
       \<and> (rejects auth tok \<and> cache tok = None \<and> i < length calls
            \<and> fst (snd (calls ! i)) = tok \<longrightarrow>
            verify_seq auth cache calls ! i
              = (case auth tok (snd (snd (calls ! i))) of
                   Reply d \<Rightarrow> d | _ \<Rightarrow> unavailable, True))"
proof (intro conjI impI)
  assume a: "verifyToken auth t0 tok op0 cache = (r, cache', True) \<and> valid r
            \<and> (\<forall>c\<in>set calls. fst c < t0 + 60000)
            \<and> i < length calls \<and> fst (snd (calls ! i)) = tok"
  then have "cache' tok = Some \<lparr>result = r, expires = t0 + 60000\<rparr>"
    using verifyToken_called by blast
  with a show "verify_seq auth' cache' calls ! i = (r, False)"
    using verify_seq_cached [OF ne, of cache' r "t0 + 60000" calls i auth'] by simp
next
  assume "verifyToken auth t0 tok op0 cache = (r, cache', called) \<and> \<not> valid r"
  then show "cache' = cache"
    using verifyToken_invalid by blast
next
  assume "rejects auth tok \<and> cache tok = None \<and> i < length calls
            \<and> fst (snd (calls ! i)) = tok"
  then have "snd (verify_seq auth cache calls ! i) \<and> \<not> valid (fst (verify_seq auth cache calls ! i))"
    using verify_seq_rejected [OF ne] by blast
  then show "snd (verify_seq auth cache calls ! i)"
    and "\<not> valid (fst (verify_seq auth cache calls ! i))"
    by simp_all
next
  assume "fresh_entry cache tok t0 = None \<and> auth tok op0 = Reply data \<and> valid data"
  then show "verifyToken auth t0 tok op0 cache
      = (data, cache(tok \<mapsto> \<lparr>result = data, expires = t0 + 60000\<rparr>), True)"
    by (simp add: verifyToken_miss [OF ne])
next
  assume a: "fresh_entry cache tok t0 = None \<and> auth tok op0 = Reply data \<and> valid data
            \<and> (\<forall>c\<in>set calls. fst c < t0 + 60000)
            \<and> i < length calls \<and> fst (snd (calls ! i)) = tok"
  then have v: "verifyToken auth t0 tok op0 cache
      = (data, cache(tok \<mapsto> \<lparr>result = data, expires = t0 + 60000\<rparr>), True)"
    by (simp add: verifyToken_miss [OF ne])
  have "verify_seq auth' (cache(tok \<mapsto> \<lparr>result = data, expires = t0 + 60000\<rparr>)) calls ! i
      = (data, False)"
    using a verify_seq_cached [OF ne,
        of "cache(tok \<mapsto> \<lparr>result = data, expires = t0 + 60000\<rparr>)" data "t0 + 60000" calls i auth']
    by simp
  then show "verify_seq auth' (fst (snd (verifyToken auth t0 tok op0 cache))) calls ! i
      = (data, False)"
    by (simp add: v)
next
  assume "fresh_entry cache tok t0 = None \<and> auth tok op0 = Reply data \<and> \<not> valid data"
  then show "verifyToken auth t0 tok op0 cache = (data, cache, True)"
    by (simp add: verifyToken_miss [OF ne])
next
  assume "fresh_entry cache tok t0 = Some data"
  with ne show "verifyToken auth t0 tok op0 cache = (data, cache, False)"
    by (rule verifyToken_fresh)
next
  assume "rejects auth tok \<and> cache tok = None \<and> i < length calls
            \<and> fst (snd (calls ! i)) = tok"
  then show "verify_seq auth cache calls ! i
      = (case auth tok (snd (snd (calls ! i))) of Reply d \<Rightarrow> d | _ \<Rightarrow> unavailable, True)"
    using verify_seq_rejected_value [OF ne] by blast
qed

theorem verify_cache_positive_only_witness:
  "verifyToken ex_authority 1000 ''token-A'' ''webhook_access'' Map.empty
     = (ex_validation, [''token-A'' \<mapsto> \<lparr>result = ex_validation, expires = 61000\<rparr>], True)
   \<and> verify_seq (\<lambda>t operation. Unreachable)
        (fst (snd (verifyToken ex_authority 1000 ''token-A'' ''webhook_access'' Map.empty)))
        [(2000, ''token-B'', ''webhook_access''), (60999, ''token-A'', ''webhook_access'')] ! 1
     = (ex_validation, False)
   \<and> verifyToken ex_authority 1000 ''token-B'' ''webhook_access'' Map.empty
     = (\<lparr>valid = False, user_id = None, email = None, credits = None,
          error = Some ''Invalid token''\<rparr>, Map.empty, True)
   \<and> verify_seq ex_authority Map.empty
        [(1000, ''token-B'', ''webhook_access''), (1001, ''token-B'', ''webhook_access'')] ! 1
     = (\<lparr>valid = False, user_id = None, email = None, credits = None,
          error = Some ''Invalid token''\<rparr>, True)"
proof -
  let ?bad = "\<lparr>valid = False, user_id = None, email = None, credits = None,
          error = Some ''Invalid token''\<rparr>"
  let ?later = "[(2000 :: nat, ''token-B'', ''webhook_access''), (60999, ''token-A'', ''webhook_access'')]"
  let ?again = "[(1000 :: nat, ''token-B'', ''webhook_access''), (1001, ''token-B'', ''webhook_access'')]"
  have good: "''token-A'' \<noteq> []" "fresh_entry Map.empty ''token-A'' 1000 = None"
      "ex_authority ''token-A'' ''webhook_access'' = Reply ex_validation" "valid ex_validation"
    by (simp_all add: fresh_entry_def ex_authority_def ex_validation_def)
  have bad: "''token-B'' \<noteq> []" "fresh_entry Map.empty ''token-B'' 1000 = None"
      "ex_authority ''token-B'' ''webhook_access'' = Reply ?bad" "\<not> valid ?bad"
      "rejects ex_authority ''token-B''"
    by (simp_all add: fresh_entry_def ex_authority_def rejects_def)
  note a = verify_cache_positive_only [where tok = "''token-A''" and auth = ex_authority
      and ?t0.0 = 1000 and ?op0.0 = "''webhook_access''" and cache = Map.empty
      and data = ex_validation and calls = ?later and i = 1
      and auth' = "\<lambda>t operation. Unreachable" and r = ex_validation and cache' = Map.empty
      and called = True, OF good(1)]
  note b = verify_cache_positive_only [where tok = "''token-B''" and auth = ex_authority
      and ?t0.0 = 1000 and ?op0.0 = "''webhook_access''" and cache = Map.empty
      and data = ?bad and calls = ?again and i = 1
      and auth' = ex_authority and r = ?bad and cache' = Map.empty
      and called = True, OF bad(1)]
  have h4: "fresh_entry Map.empty ''token-A'' 1000 = None
      \<and> ex_authority ''token-A'' ''webhook_access'' = Reply ex_validation \<and> valid ex_validation"
    using good by simp
  have h5: "fresh_entry Map.empty ''token-A'' 1000 = None
      \<and> ex_authority ''token-A'' ''webhook_access'' = Reply ex_validation \<and> valid ex_validation
      \<and> (\<forall>c\<in>set ?later. fst c < 1000 + 60000)
      \<and> 1 < length ?later \<and> fst (snd (?later ! 1)) = ''token-A''"
    using good by simp
  have h6: "fresh_entry Map.empty ''token-B'' 1000 = None
      \<and> ex_authority ''token-B'' ''webhook_access'' = Reply ?bad \<and> \<not> valid ?bad"
    using bad by simp
  have h8: "rejects ex_authority ''token-B'' \<and> Map.empty ''token-B'' = None
      \<and> 1 < length ?again \<and> fst (snd (?again ! 1)) = ''token-B''"
    using bad by simp
  have "verifyToken ex_authority 1000 ''token-A'' ''webhook_access'' Map.empty
     = (ex_validation, [''token-A'' \<mapsto> \<lparr>result = ex_validation, expires = 1000 + 60000\<rparr>], True)"
    by (rule a [THEN conjunct2, THEN conjunct2, THEN conjunct2, THEN conjunct1, THEN mp, OF h4])
  then have "verifyToken ex_authority 1000 ''token-A'' ''webhook_access'' Map.empty
     = (ex_validation, [''token-A'' \<mapsto> \<lparr>result = ex_validation, expires = 61000\<rparr>], True)"
    by simp
  moreover have "verify_seq (\<lambda>t operation. Unreachable)
        (fst (snd (verifyToken ex_authority 1000 ''token-A'' ''webhook_access'' Map.empty)))
        ?later ! 1 = (ex_validation, False)"
    by (rule a [THEN conjunct2, THEN conjunct2, THEN conjunct2, THEN conjunct2, THEN conjunct1,
          THEN mp, OF h5])
  moreover have "verifyToken ex_authority 1000 ''token-B'' ''webhook_access'' Map.empty
     = (?bad, Map.empty, True)"
    by (rule b [THEN conjunct2, THEN conjunct2, THEN conjunct2, THEN conjunct2, THEN conjunct2,
          THEN conjunct1, THEN mp, OF h6])
  moreover have "verify_seq ex_authority Map.empty ?again ! 1 = (?bad, True)"
  proof -
    have "verify_seq ex_authority Map.empty ?again ! 1
        = (case ex_authority ''token-B'' (snd (snd (?again ! 1))) of
             Reply d \<Rightarrow> d | _ \<Rightarrow> unavailable, True)"
      by (rule b [THEN conjunct2, THEN conjunct2, THEN conjunct2, THEN conjunct2, THEN conjunct2,
            THEN conjunct2, THEN conjunct2, THEN mp, OF h8])
    also have "\<dots> = (?bad, True)"
      by (simp add: ex_authority_def)
    finally show ?thesis .
  qed
  ultimately show ?thesis
    by (intro conjI)
qed

lemma authMiddleware_rejects_401:
  assumes "authMiddleware auth clock hdr cache = (Inl r, cache', called)"
  shows "status r = 401"
  using assms
  by (auto simp add: authMiddleware_def c_json_def split_beta split: option.splits if_splits)

text \<open>
  C7: \<open>verifyToken\<close> is a total function, every raise of its body being a branch that
  returns.  When the token has no fresh cache entry and the call of the authority fails
  (the authority cannot be reached, or its reply cannot be read), the result is the
  invalid validation with the message "Authentication service unavailable", the cache is
  left as it was, and the middleware answers the request with status 401 and that
  message.
\<close>

theorem transport_failure_is_auth_failure:
  assumes ne: "tok \<noteq> []" and miss: "fresh_entry cache tok clock = None"
      and fail: "auth tok operation = Unreachable \<or> auth tok operation = Malformed"
      and fail': "auth tok ''webhook_access'' = Unreachable \<or> auth tok ''webhook_access'' = Malformed"
  shows "verifyToken auth clock tok operation cache = (unavailable, cache, True)
     \<and> authMiddleware auth clock (Some (''Bearer '' @ tok)) cache
         = (Inl (c_json (Failure ''Authentication service unavailable'') 401), cache, True)"
proof
  from fail show v: "verifyToken auth clock tok operation cache = (unavailable, cache, True)"
    by (auto simp add: verifyToken_miss [OF ne miss] unavailable_def)
  from fail' have "verifyToken auth clock tok ''webhook_access'' cache = (unavailable, cache, True)"
    by (auto simp add: verifyToken_miss [OF ne miss] unavailable_def)
  then show "authMiddleware auth clock (Some (''Bearer '' @ tok)) cache
         = (Inl (c_json (Failure ''Authentication service unavailable'') 401), cache, True)"
    using ne by (simp add: authMiddleware_def startsWith_def unavailable_def js_or_def)
qed


theorem transport_failure_is_auth_failure_witness:
  "verifyToken (\<lambda>t operation. Unreachable) 1000 ''token-A'' ''webhook_operation'' Map.empty
     = (unavailable, Map.empty, True)
   \<and> authMiddleware (\<lambda>t operation. Unreachable) 1000 (Some ''Bearer token-A'') Map.empty
     = (Inl (c_json (Failure ''Authentication service unavailable'') 401), Map.empty, True)"
  using transport_failure_is_auth_failure [of "''token-A''" Map.empty 1000
      "\<lambda>t operation. Unreachable" "''webhook_operation''"]
  by (simp add: fresh_entry_def)


section \<open>Delivery dispatcher\<close>

lemma deliverEvent_eq:
  "deliverEvent P now h eid s =
     (if dispatch_attempted P h then snd (markEventsDelivered_run now eid s) else s)"
  by (simp add: deliverEvent_def dispatch_attempted_def split: option.splits)

lemma markEventsDelivered_marks:
  assumes "e \<in> set es" and "event_id e = eid"
  shows "e\<lparr>delivered_at := Some t\<rparr> \<in> set (markEventsDelivered t eid es)"
proof -
  let ?f = "\<lambda>e. if event_id e = eid then e\<lparr>delivered_at := Some t\<rparr> else e"
  from assms(1) have "?f e \<in> set (markEventsDelivered t eid es)"
    by (simp add: markEventsDelivered_def)
  with assms(2) show ?thesis by simp
qed

lemma markEventsDelivered_all_marked:
  assumes "e \<in> set (markEventsDelivered t eid es)" and "event_id e = eid"
  shows "delivered_at e = Some t"
proof -
  from assms(1) obtain x where "x \<in> set es"
    and e: "e = (if event_id x = eid then x\<lparr>delivered_at := Some t\<rparr> else x)"
    unfolding markEventsDelivered_def by auto
  show ?thesis
  proof (cases "event_id x = eid")
    case True
    with e show ?thesis by simp
  next
    case False
    with e assms(2) show ?thesis by simp
  qed
qed












section \<open>Polling\<close>

lemma getEvents_all_eq:
  "getEvents_all hid lim s =
     (if fst (step_fault s) then None else getEvents hid lim (events s), snd (step_fault s))"
  by (simp add: getEvents_all_def split_beta)

lemma getUndeliveredEvents_all_eq:
  "getUndeliveredEvents_all hid lim s =
     (if fst (step_fault s) then None else getUndeliveredEvents hid lim (events s),
      snd (step_fault s))"
  by (simp add: getUndeliveredEvents_all_def split_beta)

lemma hooks_events_eq:
  "hooks_events P now tok hid q s =
     (let s1 = snd (step_fault s); s2 = snd (step_fault s1)
      in if fst (step_fault s) then (c_json (Failure ''Failed to get events'') 500, s1)
         else case hooks s hid of
           None \<Rightarrow> (c_json (Failure ''Webhook not found'') 404, s1)
         | Some h \<Rightarrow>
             if api_key h \<noteq> tok then (c_json (Failure ''Unauthorized'') 403, s1)
             else if fst (step_fault s1) then (c_json (Failure ''Failed to get events'') 500, s2)
             else case rows_read hid q (events s) of
               None \<Rightarrow> (c_json (Failure ''Failed to get events'') 500, s2)
             | Some evs \<Rightarrow>
                 if map_of q ''mark_delivered'' \<noteq> Some ''false'' \<and> evs \<noteq> []
                 then (if fst (mark_returned now evs s2)
                       then c_json (EventList (map (view_of P) evs) (length evs)
                              (Some (int (length evs)) = req_query_limit q)) 200
                       else c_json (Failure ''Failed to get events'') 500,
                       snd (mark_returned now evs s2))
                 else (c_json (EventList (map (view_of P) evs) (length evs)
                              (Some (int (length evs)) = req_query_limit q)) 200, s2))"
  by (simp add: hooks_events_def getHook_get_eq getEvents_all_eq getUndeliveredEvents_all_eq
      rows_read_def Let_def split_beta split: option.splits)


lemma to_double_small:
  assumes "n < 2 ^ 53"
  shows "to_double n = n"
proof -
  from assms have "excess_bits n = 0"
    by (subst excess_bits.simps) simp
  then show ?thesis
    by (simp add: to_double_def)
qed

lemma newest_first_sorted_wrt:
  fixes f :: "'a \<Rightarrow> nat"
  shows "sorted_wrt (\<lambda>a b. f b \<le> f a) (sort_key (\<lambda>x. - int (f x)) xs)"
proof -
  have "sorted (map (\<lambda>x. - int (f x)) (sort_key (\<lambda>x. - int (f x)) xs))"
    by (rule sorted_sort_key)
  then show ?thesis
    by (simp add: sorted_map)
qed

lemma newest_first_distinct:
  fixes f :: "'a \<Rightarrow> nat"
  assumes "distinct (map f xs)"
  shows "sort_key (\<lambda>x. - int (f x)) xs = rev (sort_key f xs)"
proof (rule sort_key_inj_key_eq)
  show "mset xs = mset (rev (sort_key f xs))"
    by simp
  from assms have "inj_on f (set xs)"
    by (simp add: distinct_map)
  then show "inj_on (\<lambda>x. - int (f x)) (set xs)"
    by (auto simp add: inj_on_def)
  have "sorted (map f (sort_key f xs))"
    by (rule sorted_sort_key)
  then have "sorted_wrt (\<lambda>a b. f a \<le> f b) (sort_key f xs)"
    by (simp add: sorted_map)
  then show "sorted (map (\<lambda>x. - int (f x)) (rev (sort_key f xs)))"
    by (simp add: sorted_map sorted_wrt_rev)
qed

lemma sql_limit_subset:
  assumes "sql_limit lim rows = Some evs"
  shows "set evs \<subseteq> set rows"
  using assms
  by (auto simp add: sql_limit_def split: option.splits if_splits dest: in_set_takeD)

lemma rows_read_subset:
  assumes "rows_read hid q es = Some evs"
  shows "set evs \<subseteq> {e \<in> set es. hook_id e = hid}"
proof (cases "map_of q ''undelivered'' = Some ''true''")
  case True
  with assms have "sql_limit (req_query_limit q) (sort_key received_at
      (filter (\<lambda>e. hook_id e = hid \<and> delivered_at e = None) es)) = Some evs"
    by (simp add: rows_read_def getUndeliveredEvents_def)
  from sql_limit_subset [OF this] show ?thesis by auto
next
  case False
  with assms have "sql_limit (req_query_limit q)
      (sort_key (\<lambda>e. - int (received_at e)) (filter (\<lambda>e. hook_id e = hid) es)) = Some evs"
    by (simp add: rows_read_def getEvents_def)
  from sql_limit_subset [OF this] show ?thesis by auto
qed

lemma markEventsDelivered_other:
  assumes "e \<in> set es" and "event_id e \<noteq> eid"
  shows "e \<in> set (markEventsDelivered t eid es)"
proof -
  let ?f = "\<lambda>e. if event_id e = eid then e\<lparr>delivered_at := Some t\<rparr> else e"
  from assms(1) have "?f e \<in> set (markEventsDelivered t eid es)"
    by (simp add: markEventsDelivered_def)
  with assms(2) show ?thesis by simp
qed

lemma mark_returned_ids:
  "map event_id (events (snd (mark_returned now evs s))) = map event_id (events s)"
proof (induction evs arbitrary: s)
  case Nil
  show ?case by simp
next
  case (Cons ev evs)
  show ?case
  proof (cases "delivered_at ev = None \<and> \<not> fst (step_fault s)")
    case True
    then have "mark_returned now (ev # evs) s = mark_returned now evs
        ((snd (step_fault s))\<lparr>events := markEventsDelivered now (event_id ev) (events s)\<rparr>)"
      by (simp add: markEventsDelivered_run_eq)
    then show ?thesis
      by (simp add: Cons.IH markEventsDelivered_ids)
  next
    case False
    then have "mark_returned now (ev # evs) s = mark_returned now evs s
        \<or> mark_returned now (ev # evs) s = (False, snd (step_fault s))"
      by (auto simp add: markEventsDelivered_run_eq)
    then show ?thesis
      by (auto simp add: Cons.IH)
  qed
qed

lemma mark_returned_keeps:
  assumes "\<forall>ev\<in>set evs. delivered_at ev = None \<longrightarrow> event_id ev \<noteq> event_id e"
  shows "e \<in> set (events s) \<Longrightarrow> e \<in> set (events (snd (mark_returned now evs s)))"
  using assms
proof (induction evs arbitrary: s)
  case Nil
  then show ?case by simp
next
  case (Cons ev evs)
  from Cons.prems(2) have rest: "\<forall>ev\<in>set evs. delivered_at ev = None \<longrightarrow> event_id ev \<noteq> event_id e"
    by simp
  show ?case
  proof (cases "delivered_at ev = None \<and> \<not> fst (step_fault s)")
    case True
    let ?s' = "(snd (step_fault s))\<lparr>events := markEventsDelivered now (event_id ev) (events s)\<rparr>"
    from True have run: "mark_returned now (ev # evs) s = mark_returned now evs ?s'"
      by (simp add: markEventsDelivered_run_eq)
    from True Cons.prems(2) have "event_id e \<noteq> event_id ev"
      by auto
    with Cons.prems(1) have "e \<in> set (events ?s')"
      by (simp add: markEventsDelivered_other)
    then show ?thesis
      unfolding run using rest by (rule Cons.IH)
  next
    case False
    then have "mark_returned now (ev # evs) s = mark_returned now evs s
        \<or> mark_returned now (ev # evs) s = (False, snd (step_fault s))"
      by (auto simp add: markEventsDelivered_run_eq)
    then show ?thesis
    proof
      assume "mark_returned now (ev # evs) s = mark_returned now evs s"
      then show ?thesis
        using Cons.IH [OF Cons.prems(1) rest] by simp
    next
      assume "mark_returned now (ev # evs) s = (False, snd (step_fault s))"
      then show ?thesis
        using Cons.prems(1) by simp
    qed
  qed
qed

lemma hooks_events_store:
  "events (snd (hooks_events P now tok hid q s)) = events s
   \<or> (\<exists>evs. rows_read hid q (events s) = Some evs
         \<and> snd (hooks_events P now tok hid q s)
             = snd (mark_returned now evs (snd (step_fault (snd (step_fault s))))))"
  by (simp add: hooks_events_eq Let_def split: option.splits)

text \<open>
  C10: event ids are unique (the primary key).  A row of \<open>events\<close> that has a
  \<open>delivered_at\<close>, or that belongs to another hook, is in the table unchanged after a poll
  of the hook, whatever the query parameters are and whatever statement raises; and the
  poll neither adds nor removes rows.  So the poll marks only rows that had no
  \<open>delivered_at\<close>, and never overwrites a delivery time.
\<close>

theorem poll_never_overwrites_delivered_at:
  assumes keys: "distinct (map event_id (events s))"
      and row: "e \<in> set (events s)"
      and kept: "delivered_at e \<noteq> None \<or> hook_id e \<noteq> hid"
  shows "e \<in> set (events (snd (hooks_events P now tok hid q s)))
     \<and> map event_id (events (snd (hooks_events P now tok hid q s))) = map event_id (events s)"
proof -
  let ?s' = "snd (hooks_events P now tok hid q s)"
  from hooks_events_store [of P now tok hid q s]
  consider (same) "events ?s' = events s"
    | (marked) evs where "rows_read hid q (events s) = Some evs"
        "?s' = snd (mark_returned now evs (snd (step_fault (snd (step_fault s)))))"
    by blast
  then show ?thesis
  proof cases
    case same
    with row show ?thesis by simp
  next
    case marked
    have "event_id ev \<noteq> event_id e" if ev: "ev \<in> set evs" and undelivered: "delivered_at ev = None" for ev
    proof
      assume same_id: "event_id ev = event_id e"
      from rows_read_subset [OF marked(1)] ev have "ev \<in> set (events s)" and "hook_id ev = hid"
        by auto
      with keys row same_id have "ev = e"
        by (meson distinct_map inj_onD)
      with kept undelivered \<open>hook_id ev = hid\<close> show False
        by simp
    qed
    then have "\<forall>ev\<in>set evs. delivered_at ev = None \<longrightarrow> event_id ev \<noteq> event_id e"
      by blast
    moreover from row have "e \<in> set (events (snd (step_fault (snd (step_fault s)))))"
      by simp
    ultimately have "e \<in> set (events ?s')"
      unfolding marked(2) by (rule mark_returned_keeps)
    moreover have "map event_id (events ?s') = map event_id (events s)"
      unfolding marked(2) by (simp add: mark_returned_ids)
    ultimately show ?thesis
      by simp
  qed
qed


theorem poll_never_overwrites_delivered_at_witness:
  "ex_delivered
     \<in> set (events (snd (hooks_events ex_parse 9 ''token-A'' ''vgctbpvG0MFt'' [] ex_polled_store)))
   \<and> map event_id (events (snd (hooks_events ex_parse 9 ''token-A'' ''vgctbpvG0MFt'' []
          ex_polled_store)))
     = [''y0HypLl8h3fzV001'', ''y0HypLl8h3fzV002'']"
  using poll_never_overwrites_delivered_at [of ex_polled_store ex_delivered
      "''vgctbpvG0MFt''" ex_parse 9 "''token-A''" "[]"]
  by (simp add: ex_polled_store_def ex_delivered_def ex_undelivered_def)

lemma mark_returned_no_faults:
  assumes "faults s = []"
  shows "fst (mark_returned now evs s)"
  using assms
proof (induction evs arbitrary: s)
  case Nil
  show ?case by simp
next
  case (Cons ev evs)
  from Cons.prems have sf: "step_fault s = (False, s)"
    by (simp add: step_fault_def)
  show ?case
  proof (cases "delivered_at ev = None")
    case True
    with sf have "mark_returned now (ev # evs) s = mark_returned now evs
        (s\<lparr>events := markEventsDelivered now (event_id ev) (events s)\<rparr>)"
      by (simp add: markEventsDelivered_run_eq)
    with Cons.prems show ?thesis
      by (simp add: Cons.IH)
  next
    case False
    then have "mark_returned now (ev # evs) s = mark_returned now evs s"
      by (cases "delivered_at ev") simp_all
    with Cons.prems show ?thesis
      by (simp add: Cons.IH)
  qed
qed

lemma sql_limit_take:
  assumes "sql_limit lim rows = Some evs"
  shows "\<exists>k. evs = take k rows"
proof (cases lim)
  case None
  with assms show ?thesis by (simp add: sql_limit_def)
next
  case (Some n)
  with assms have "evs = rows \<or> evs = take (nat n) rows"
    by (auto simp add: sql_limit_def split: if_splits)
  then show ?thesis
    by (metis take_all order_refl)
qed

lemma sql_limit_bound:
  assumes "sql_limit (Some n) rows = Some evs" and "0 \<le> n"
  shows "int (length evs) \<le> n"
  using assms by (auto simp add: sql_limit_def split: if_splits)

lemma req_query_limit_cap:
  assumes "req_query_limit q = Some n"
  shows "n \<le> 100"
  using assms by (auto simp add: req_query_limit_def)

lemma hooks_events_listing:
  assumes "hooks_events P now tok hid q s = (r, s')" and "payload r = EventList views n flag"
  shows "\<exists>evs. rows_read hid q (events s) = Some evs \<and> views = map (view_of P) evs
           \<and> n = length evs \<and> flag = (Some (int (length evs)) = req_query_limit q)"
  using assms
  by (auto simp add: hooks_events_eq Let_def c_json_def split: option.splits if_splits)

text \<open>
  What a poll lists, for every query string: the count is the number of events listed,
  \<open>has_more\<close> says that the count equals the limit, a limit that is not negative bounds
  the count and is at most 100; with \<open>undelivered=true\<close> only events without
  \<open>delivered_at\<close> are listed, oldest first, and otherwise the events are listed newest
  first.
\<close>

lemma poll_page:
  assumes run: "hooks_events P now tok hid q s = (r, s')"
      and listed: "payload r = EventList views n flag"
  shows "n = length views
     \<and> (flag \<longleftrightarrow> req_query_limit q = Some (int n))
     \<and> (\<forall>lim. req_query_limit q = Some lim \<and> 0 \<le> lim \<longrightarrow> int n \<le> lim \<and> lim \<le> 100)
     \<and> (map_of q ''undelivered'' = Some ''true'' \<longrightarrow>
          (\<forall>v\<in>set views. ev_delivered_at v = None) \<and> sorted (map ev_received_at views))
     \<and> (map_of q ''undelivered'' \<noteq> Some ''true'' \<longrightarrow> sorted (rev (map ev_received_at views)))"
proof -
  from hooks_events_listing [OF run listed] obtain evs
    where rows: "rows_read hid q (events s) = Some evs" and views: "views = map (view_of P) evs"
      and n: "n = length evs" and fl: "flag = (Some (int (length evs)) = req_query_limit q)"
    by blast
  have times: "map ev_received_at views = map received_at evs"
    by (simp add: views view_of_def comp_def)
  have count: "n = length views"
    by (simp add: n views)
  have hm: "flag \<longleftrightarrow> req_query_limit q = Some (int n)"
    using fl n by auto
  have bound: "int n \<le> lim \<and> lim \<le> 100" if "req_query_limit q = Some lim" and "0 \<le> lim" for lim
  proof -
    from rows that(1) obtain rows' where "sql_limit (Some lim) rows' = Some evs"
      by (auto simp add: rows_read_def getEvents_def getUndeliveredEvents_def split: if_splits)
    from sql_limit_bound [OF this that(2)] req_query_limit_cap [OF that(1)] n
    show ?thesis by simp
  qed
  have fifo: "(\<forall>v\<in>set views. ev_delivered_at v = None) \<and> sorted (map ev_received_at views)"
    if u: "map_of q ''undelivered'' = Some ''true''"
  proof -
    let ?rows = "sort_key received_at
        (filter (\<lambda>e. hook_id e = hid \<and> delivered_at e = None) (events s))"
    from rows u have "sql_limit (req_query_limit q) ?rows = Some evs"
      by (simp add: rows_read_def getUndeliveredEvents_def)
    then obtain k where evs: "evs = take k ?rows"
      using sql_limit_take by blast
    have "sorted (map received_at ?rows)"
      by (rule sorted_sort_key)
    then have "sorted (map received_at evs)"
      unfolding evs take_map [symmetric] by (rule sorted_wrt_take)
    moreover have "\<forall>e\<in>set evs. delivered_at e = None"
      unfolding evs by (auto dest: in_set_takeD)
    ultimately show ?thesis
      unfolding times by (simp add: views view_of_def)
  qed
  have recent: "sorted (rev (map ev_received_at views))"
    if u: "map_of q ''undelivered'' \<noteq> Some ''true''"
  proof -
    let ?own = "sort_key (\<lambda>e. - int (received_at e)) (filter (\<lambda>e. hook_id e = hid) (events s))"
    from rows u have "sql_limit (req_query_limit q) ?own = Some evs"
      by (simp add: rows_read_def getEvents_def)
    then obtain k where evs: "evs = take k ?own"
      using sql_limit_take by blast
    have "sorted_wrt (\<lambda>a b. received_at b \<le> received_at a) ?own"
      by (rule newest_first_sorted_wrt)
    then have "sorted_wrt (\<lambda>a b. received_at b \<le> received_at a) evs"
      unfolding evs by (rule sorted_wrt_take)
    then have "sorted (rev (map received_at evs))"
      by (simp add: sorted_wrt_rev sorted_wrt_map)
    then show ?thesis
      by (simp add: times)
  qed
  from count hm bound fifo recent show ?thesis
    by blast
qed

text \<open>
  C4 (code at the failing input): \<open>GET /hooks/vgctbpvG0MFt/events?limit=-1\<close> on a hook with
  101 events.  The limit is \<open>Math.min(-1, 100) = -1\<close>, which SQLite reads as no limit: the
  answer lists all 101 events, more than the cap of 100, and \<open>has_more\<close> is false.
\<close>

theorem negative_limit_returns_every_event:
  "req_query_limit [(''limit'', ''-1'')] = Some (- 1)
   \<and> fst (hooks_events P 200 ''token-A'' ''vgctbpvG0MFt'' [(''limit'', ''-1'')] ex_crowded_store)
     = c_json (EventList
         (map (view_of P) (rev (sort_key received_at (map ex_event [0..<101])))) 101 False) 200"
proof -
  let ?q = "[(''limit'', ''-1'')]"
  have lim: "req_query_limit ?q = Some (- 1)"
    by (simp add: req_query_limit_def parseInt_def js_or_def isWhiteSpace_def digit_value_def
        to_double_small)
  have all: "filter (\<lambda>e. hook_id e = ''vgctbpvG0MFt'') (map ex_event [0..<101]) = map ex_event [0..<101]"
    by (simp add: filter_map comp_def ex_event_def)
  have "map received_at (map ex_event [0..<101]) = [0..<101]"
    by (simp add: ex_event_def comp_def)
  then have "distinct (map received_at (map ex_event [0..<101]))"
    by simp
  then have newest: "sort_key (\<lambda>e. - int (received_at e)) (map ex_event [0..<101])
      = rev (sort_key received_at (map ex_event [0..<101]))"
    by (rule newest_first_distinct)
  have rows: "rows_read ''vgctbpvG0MFt'' ?q (events ex_crowded_store)
      = Some (rev (sort_key received_at (map ex_event [0..<101])))"
    by (simp add: rows_read_def getEvents_def sql_limit_def lim ex_crowded_store_def all newest)
  have sf: "step_fault ex_crowded_store = (False, ex_crowded_store)"
    by (simp add: step_fault_def ex_crowded_store_def)
  have ok: "fst (mark_returned 200 (rev (sort_key received_at (map ex_event [0..<101]))) ex_crowded_store)"
    by (rule mark_returned_no_faults) (simp add: ex_crowded_store_def)
  have hook: "hooks ex_crowded_store ''vgctbpvG0MFt'' = Some ex_hook" "api_key ex_hook = ''token-A''"
    by (simp_all add: ex_crowded_store_def ex_hook_def)
  have len: "length (rev (sort_key received_at (map ex_event [0..<101]))) = 101"
    by simp
  then have ne: "rev (sort_key received_at (map ex_event [0..<101])) \<noteq> []"
    by (metis length_0_conv zero_neq_numeral)
  have "fst (hooks_events P 200 ''token-A'' ''vgctbpvG0MFt'' ?q ex_crowded_store)
     = c_json (EventList
         (map (view_of P) (rev (sort_key received_at (map ex_event [0..<101])))) 101 False) 200"
    using ne len by (simp add: hooks_events_eq Let_def sf rows ok hook lim)
  with lim show ?thesis
    by (rule conjI)
qed


section \<open>Ingest, then poll\<close>

lemma step_fault_none:
  assumes "faults s = []"
  shows "step_fault s = (False, s)"
  using assms by (simp add: step_fault_def)

lemma markEventsDelivered_absent:
  assumes "eid \<notin> event_id ` set es"
  shows "markEventsDelivered t eid es = es"
  using assms by (induction es) (auto simp add: markEventsDelivered_def)

lemma dispatch_attempted_truthy:
  assumes "dispatch_attempted P h"
  shows "truthy (delivery_config h)"
  using assms by (auto simp add: dispatch_attempted_def truthy_def split: option.splits)

lemma webhook_all_no_faults:
  assumes nf: "faults s = []" and hook: "hooks s hid = Some h"
      and fresh: "eid \<notin> event_id ` set (events s)"
  shows "fst (webhook_all S P now eid hid req s) = c_json (Received True (Some eid)) 200"
    and "events (snd (webhook_all S P now eid hid req s))
          = events s @ [(ingested_row S now eid hid req)
                          \<lparr>delivered_at := if dispatched P h then Some now else None\<rparr>]"
    and "faults (snd (webhook_all S P now eid hid req s)) = []"
    and "map_option api_key (hooks (snd (webhook_all S P now eid hid req s)) hid) = Some (api_key h)"
proof -
  let ?row = "ingested_row S now eid hid req"
  let ?s2 = "s\<lparr>events := events s @ [?row]\<rparr>"
  let ?s3 = "updateHookTrigger now hid ?s2"
  have sf: "step_fault s = (False, s)" "step_fault ?s2 = (False, ?s2)"
    using nf by (simp_all add: step_fault_def)
  have run: "webhook_all S P now eid hid req s =
      (c_json (Received True (Some eid)) 200,
       if delivery_method h \<noteq> ''poll'' \<and> truthy (delivery_config h)
       then deliverEvent P now h eid ?s3 else ?s3)"
    using hook fresh
    by (simp add: webhook_all_eq [of S P now eid hid req s, folded ingested_row_def] Let_def sf)
  show "fst (webhook_all S P now eid hid req s) = c_json (Received True (Some eid)) 200"
    by (simp add: run)
  have f3: "faults ?s3 = []" and e3: "events ?s3 = events s @ [?row]"
    and h3: "map_option api_key (hooks ?s3 hid) = Some (api_key h)"
    using nf hook by (simp_all add: updateHookTrigger_def)
  have sf3: "step_fault ?s3 = (False, ?s3)"
    using f3 by (rule step_fault_none)
  have marked: "markEventsDelivered now eid (events s @ [?row])
      = events s @ [?row\<lparr>delivered_at := Some now\<rparr>]"
    using markEventsDelivered_absent [OF fresh, of now]
    by (simp add: markEventsDelivered_def ingested_row_def)
  have de: "deliverEvent P now h eid ?s3
      = (if dispatch_attempted P h
         then ?s3\<lparr>events := events s @ [?row\<lparr>delivered_at := Some now\<rparr>]\<rparr> else ?s3)"
    by (simp add: deliverEvent_eq markEventsDelivered_run_eq sf3 e3 marked)
  have final: "snd (webhook_all S P now eid hid req s)
      = (if dispatched P h
         then ?s3\<lparr>events := events s @ [?row\<lparr>delivered_at := Some now\<rparr>]\<rparr> else ?s3)"
    using dispatch_attempted_truthy [of P h] by (auto simp add: run de dispatched_def)
  show "events (snd (webhook_all S P now eid hid req s))
          = events s @ [?row\<lparr>delivered_at := if dispatched P h then Some now else None\<rparr>]"
    unfolding final using e3 by (simp add: ingested_row_def)
  show "faults (snd (webhook_all S P now eid hid req s)) = []"
    unfolding final using f3 by simp
  show "map_option api_key (hooks (snd (webhook_all S P now eid hid req s)) hid) = Some (api_key h)"
    unfolding final using h3 by simp
qed


lemma sort_key_snoc_least:
  fixes g :: "'a \<Rightarrow> int"
  assumes "\<forall>y\<in>set xs. g x < g y"
  shows "sort_key g (xs @ [x]) = x # sort_key g xs"
  using assms
proof (induction xs)
  case Nil
  show ?case by simp
next
  case (Cons a xs)
  then have "sort_key g (xs @ [x]) = x # sort_key g xs" and "g x < g a"
    by simp_all
  then show ?case
    by simp
qed

lemma req_query_limit_default:
  "req_query_limit [] = Some 50" "req_query_limit [(''undelivered'', ''true'')] = Some 50"
  by (simp_all add: req_query_limit_def parseInt_def js_or_def isWhiteSpace_def digit_value_def
      to_double_small)

lemma rows_read_default:
  assumes "\<forall>e\<in>set es. hook_id e = hid \<longrightarrow> received_at e < received_at x" and "hook_id x = hid"
  shows "rows_read hid [] (es @ [x])
     = Some (x # take 49 (sort_key (\<lambda>e. - int (received_at e))
                (filter (\<lambda>e. hook_id e = hid) es)))"
proof -
  let ?own = "filter (\<lambda>e. hook_id e = hid) es"
  from assms(1) have "\<forall>y\<in>set ?own. - int (received_at x) < - int (received_at y)"
    by simp
  then have "sort_key (\<lambda>e. - int (received_at e)) (?own @ [x])
      = x # sort_key (\<lambda>e. - int (received_at e)) ?own"
    by (rule sort_key_snoc_least)
  with assms(2) have "sort_key (\<lambda>e. - int (received_at e)) (filter (\<lambda>e. hook_id e = hid) (es @ [x]))
      = x # sort_key (\<lambda>e. - int (received_at e)) ?own"
    by simp
  then show ?thesis
    by (simp add: rows_read_def getEvents_def sql_limit_def req_query_limit_default)
qed

lemma rows_read_undelivered:
  "rows_read hid [(''undelivered'', ''true'')] es
     = Some (take 50 (sort_key received_at
          (filter (\<lambda>e. hook_id e = hid \<and> delivered_at e = None) es)))"
  by (simp add: rows_read_def getUndeliveredEvents_def sql_limit_def req_query_limit_default)

lemma mark_returned_store:
  assumes "faults s = []"
  shows "faults (snd (mark_returned now evs s)) = [] \<and> hooks (snd (mark_returned now evs s)) = hooks s"
  using assms
proof (induction evs arbitrary: s)
  case Nil
  then show ?case by simp
next
  case (Cons ev evs)
  from Cons.prems have sf: "step_fault s = (False, s)"
    by (rule step_fault_none)
  show ?case
  proof (cases "delivered_at ev")
    case None
    let ?s' = "s\<lparr>events := markEventsDelivered now (event_id ev) (events s)\<rparr>"
    from None sf have "mark_returned now (ev # evs) s = mark_returned now evs ?s'"
      by (simp add: markEventsDelivered_run_eq)
    moreover from Cons.prems have "faults ?s' = []" by simp
    ultimately show ?thesis
      using Cons.IH [of ?s'] by simp
  next
    case (Some t)
    then have "mark_returned now (ev # evs) s = mark_returned now evs s"
      by simp
    with Cons.prems show ?thesis
      using Cons.IH [of s] by simp
  qed
qed

lemma mark_returned_keys:
  "map (\<lambda>e. (event_id e, hook_id e)) (events (snd (mark_returned now evs s)))
     = map (\<lambda>e. (event_id e, hook_id e)) (events s)"
proof (induction evs arbitrary: s)
  case Nil
  show ?case by simp
next
  case (Cons ev evs)
  have keys: "map (\<lambda>e. (event_id e, hook_id e)) (markEventsDelivered now x es)
      = map (\<lambda>e. (event_id e, hook_id e)) es" for x es
    by (simp add: markEventsDelivered_def)
  show ?case
  proof (cases "delivered_at ev = None \<and> \<not> fst (step_fault s)")
    case True
    then have "mark_returned now (ev # evs) s = mark_returned now evs
        ((snd (step_fault s))\<lparr>events := markEventsDelivered now (event_id ev) (events s)\<rparr>)"
      by (simp add: markEventsDelivered_run_eq)
    then show ?thesis
      by (simp add: Cons.IH keys)
  next
    case False
    then have "mark_returned now (ev # evs) s = mark_returned now evs s
        \<or> mark_returned now (ev # evs) s = (False, snd (step_fault s))"
      by (auto simp add: markEventsDelivered_run_eq)
    then show ?thesis
      by (auto simp add: Cons.IH)
  qed
qed

lemma markEventsDelivered_nonnull:
  assumes "\<forall>e\<in>set es. event_id e = x \<longrightarrow> delivered_at e \<noteq> None"
  shows "\<forall>e\<in>set (markEventsDelivered t y es). event_id e = x \<longrightarrow> delivered_at e \<noteq> None"
proof (intro ballI impI)
  fix e
  assume "e \<in> set (markEventsDelivered t y es)" and x: "event_id e = x"
  then obtain e0 where e0: "e0 \<in> set es"
    and e: "e = (if event_id e0 = y then e0\<lparr>delivered_at := Some t\<rparr> else e0)"
    unfolding markEventsDelivered_def by auto
  show "delivered_at e \<noteq> None"
  proof (cases "event_id e0 = y")
    case True
    with e show ?thesis by simp
  next
    case False
    with e have "e = e0" by simp
    with assms e0 x show ?thesis by simp
  qed
qed

lemma mark_returned_nonnull:
  assumes "\<forall>e\<in>set (events s). event_id e = x \<longrightarrow> delivered_at e \<noteq> None"
  shows "\<forall>e\<in>set (events (snd (mark_returned now evs s))). event_id e = x \<longrightarrow> delivered_at e \<noteq> None"
  using assms
proof (induction evs arbitrary: s)
  case Nil
  then show ?case by simp
next
  case (Cons ev evs)
  show ?case
  proof (cases "delivered_at ev = None \<and> \<not> fst (step_fault s)")
    case True
    let ?s' = "(snd (step_fault s))\<lparr>events := markEventsDelivered now (event_id ev) (events s)\<rparr>"
    from True have run: "mark_returned now (ev # evs) s = mark_returned now evs ?s'"
      by (simp add: markEventsDelivered_run_eq)
    from Cons.prems have "\<forall>e\<in>set (events ?s'). event_id e = x \<longrightarrow> delivered_at e \<noteq> None"
      using markEventsDelivered_nonnull [of "events s" x now "event_id ev"] by simp
    then show ?thesis
      unfolding run by (rule Cons.IH)
  next
    case False
    then have "mark_returned now (ev # evs) s = mark_returned now evs s
        \<or> mark_returned now (ev # evs) s = (False, snd (step_fault s))"
      by (auto simp add: markEventsDelivered_run_eq)
    then show ?thesis
    proof
      assume "mark_returned now (ev # evs) s = mark_returned now evs s"
      then show ?thesis
        using Cons.IH [OF Cons.prems] by simp
    next
      assume "mark_returned now (ev # evs) s = (False, snd (step_fault s))"
      then show ?thesis
        using Cons.prems by simp
    qed
  qed
qed

lemma mark_returned_head:
  assumes nf: "faults s = []"
      and known: "delivered_at ev \<noteq> None \<longrightarrow>
                    (\<forall>e\<in>set (events s). event_id e = event_id ev \<longrightarrow> delivered_at e \<noteq> None)"
  shows "\<forall>e\<in>set (events (snd (mark_returned now (ev # evs) s))).
           event_id e = event_id ev \<longrightarrow> delivered_at e \<noteq> None"
proof (cases "delivered_at ev")
  case None
  let ?s' = "s\<lparr>events := markEventsDelivered now (event_id ev) (events s)\<rparr>"
  from nf have "step_fault s = (False, s)"
    by (rule step_fault_none)
  with None have run: "mark_returned now (ev # evs) s = mark_returned now evs ?s'"
    by (simp add: markEventsDelivered_run_eq)
  have "\<forall>e\<in>set (events ?s'). event_id e = event_id ev \<longrightarrow> delivered_at e \<noteq> None"
    using markEventsDelivered_all_marked [of _ now "event_id ev" "events s"] by auto
  then show ?thesis
    unfolding run by (rule mark_returned_nonnull)
next
  case (Some t)
  then have run: "mark_returned now (ev # evs) s = mark_returned now evs s"
    by simp
  from Some known have "\<forall>e\<in>set (events s). event_id e = event_id ev \<longrightarrow> delivered_at e \<noteq> None"
    by simp
  then show ?thesis
    unfolding run by (rule mark_returned_nonnull)
qed

lemma hooks_events_no_faults:
  assumes nf: "faults s = []" and owner: "map_option api_key (hooks s hid) = Some tok"
      and rows: "rows_read hid q (events s) = Some evs"
      and mark: "map_of q ''mark_delivered'' \<noteq> Some ''false''"
  shows "fst (hooks_events P now tok hid q s)
           = c_json (EventList (map (view_of P) evs) (length evs)
               (Some (int (length evs)) = req_query_limit q)) 200"
    and "snd (hooks_events P now tok hid q s) = snd (mark_returned now evs s)"
proof -
  from nf have sf: "step_fault s = (False, s)"
    by (rule step_fault_none)
  from owner obtain h where h: "hooks s hid = Some h" "api_key h = tok"
    by (cases "hooks s hid") auto
  have ok: "fst (mark_returned now evs s)"
    using nf by (rule mark_returned_no_faults)
  show "fst (hooks_events P now tok hid q s)
           = c_json (EventList (map (view_of P) evs) (length evs)
               (Some (int (length evs)) = req_query_limit q)) 200"
    using h rows mark ok by (simp add: hooks_events_eq Let_def sf)
  show "snd (hooks_events P now tok hid q s) = snd (mark_returned now evs s)"
    using h rows mark by (cases evs) (simp_all add: hooks_events_eq Let_def sf)
qed


declare mark_returned.simps [simp del]

lemma view_of_ingested_row:
  assumes post: "req_method req = ''POST''" and raw: "req_text req = Some raw"
      and small: "length raw \<le> MAX_BODY_SIZE" and json: "P raw = Some j" and nonempty: "raw \<noteq> []"
  shows "view_of P ((ingested_row S now eid hid req)\<lparr>delivered_at := d\<rparr>)
     = \<lparr>ev_id = eid, ev_method = ''POST'', ev_headers = stored_headers req, ev_body = j,
        ev_query_params = (if queryParams req \<noteq> [] then Some (queryParams req) else None),
        ev_source_ip = sourceIp req, ev_received_at = now, ev_delivered_at = d\<rparr>"
  using assms by (simp add: view_of_def ingested_row_def stored_body_def tryParseJson_def)

text \<open>
  C9 (amended): no statement of the store raises, the hook exists and belongs to the
  caller, the event id is fresh, and every stored event of the hook is older than the
  POST.  A POST with a body of valid JSON, not above the size ceiling, is answered
  \<open>{received: true, event_id}\<close>.  The next poll with default parameters lists the event
  first, with the parsed JSON as body and with the \<open>delivered_at\<close> read before the poll
  marks it (null unless the dispatcher marked the event on arrival); after that poll the
  stored event has a \<open>delivered_at\<close>, and a further poll with \<open>undelivered=true\<close> does not
  list the event.  For a hook without earlier events the first poll lists exactly that
  event and the further poll lists none.
\<close>

theorem ingest_then_poll_roundtrip:
  assumes nf: "faults s = []"
      and hook: "hooks s hid = Some h" and owner: "api_key h = tok"
      and fresh: "eid \<notin> event_id ` set (events s)"
      and post: "req_method req = ''POST''" and raw: "req_text req = Some raw"
      and small: "length raw \<le> MAX_BODY_SIZE" and json: "P raw = Some j" and nonempty: "raw \<noteq> []"
      and clock: "\<forall>e\<in>set (events s). hook_id e = hid \<longrightarrow> received_at e < now"
      and run1: "webhook_all S P now eid hid req s = (r1, s1)"
      and run2: "hooks_events P now2 tok hid [] s1 = (r2, s2)"
      and run3: "hooks_events P now3 tok hid [(''undelivered'', ''true'')] s2 = (r3, s3)"
  shows "r1 = c_json (Received True (Some eid)) 200
     \<and> status r2 = 200
     \<and> (\<exists>rest n more. payload r2 = EventList
           (\<lparr>ev_id = eid, ev_method = ''POST'', ev_headers = stored_headers req, ev_body = j,
             ev_query_params = (if queryParams req \<noteq> [] then Some (queryParams req) else None),
             ev_source_ip = sourceIp req, ev_received_at = now,
             ev_delivered_at = (if dispatched P h then Some now else None)\<rparr> # rest) n more)
     \<and> (\<exists>e\<in>set (events s2). event_id e = eid)
     \<and> (\<forall>e\<in>set (events s2). event_id e = eid \<longrightarrow> delivered_at e \<noteq> None)
     \<and> status r3 = 200
     \<and> (\<exists>views n more. payload r3 = EventList views n more \<and> eid \<notin> ev_id ` set views)
     \<and> ((\<forall>e\<in>set (events s). hook_id e \<noteq> hid) \<longrightarrow>
          payload r2 = EventList
           [\<lparr>ev_id = eid, ev_method = ''POST'', ev_headers = stored_headers req, ev_body = j,
             ev_query_params = (if queryParams req \<noteq> [] then Some (queryParams req) else None),
             ev_source_ip = sourceIp req, ev_received_at = now,
             ev_delivered_at = (if dispatched P h then Some now else None)\<rparr>] 1 False
          \<and> payload r3 = EventList [] 0 False)"
proof -
  let ?d = "if dispatched P h then Some now else None"
  let ?row = "(ingested_row S now eid hid req)\<lparr>delivered_at := ?d\<rparr>"
  let ?view = "\<lparr>ev_id = eid, ev_method = ''POST'', ev_headers = stored_headers req, ev_body = j,
             ev_query_params = (if queryParams req \<noteq> [] then Some (queryParams req) else None),
             ev_source_ip = sourceIp req, ev_received_at = now, ev_delivered_at = ?d\<rparr>"
  let ?older = "take 49 (sort_key (\<lambda>e. - int (received_at e))
      (filter (\<lambda>e. hook_id e = hid) (events s)))"
  let ?q3 = "[(''undelivered'', ''true'')]"
  let ?evs3 = "take 50 (sort_key received_at
          (filter (\<lambda>e. hook_id e = hid \<and> delivered_at e = None) (events s2)))"
  have view: "view_of P ?row = ?view"
    using post raw small json nonempty by (rule view_of_ingested_row)
  have row: "event_id ?row = eid" "hook_id ?row = hid" "received_at ?row = now" "delivered_at ?row = ?d"
    by (simp_all add: ingested_row_def)
  \<comment> \<open>the POST\<close>
  from webhook_all_no_faults [OF nf hook fresh, of S P now req] run1
  have r1: "r1 = c_json (Received True (Some eid)) 200"
    and e1: "events s1 = events s @ [?row]"
    and f1: "faults s1 = []"
    and h1: "map_option api_key (hooks s1 hid) = Some tok"
    using owner by simp_all
  \<comment> \<open>the poll with default parameters\<close>
  have rows2: "rows_read hid [] (events s1) = Some (?row # ?older)"
    unfolding e1 using clock row by (intro rows_read_default) simp_all
  from hooks_events_no_faults [OF f1 h1 rows2, of P now2] run2
  have r2: "r2 = c_json (EventList (map (view_of P) (?row # ?older)) (length (?row # ?older))
               (Some (int (length (?row # ?older))) = req_query_limit [])) 200"
    and s2: "s2 = snd (mark_returned now2 (?row # ?older) s1)"
    by simp_all
  have st2: "status r2 = 200"
    and p2: "\<exists>rest n more. payload r2 = EventList (?view # rest) n more"
    unfolding r2 by (simp_all add: c_json_def view)
  from mark_returned_store [OF f1, of now2 "?row # ?older"]
  have f2: "faults s2 = []" and h2: "map_option api_key (hooks s2 hid) = Some tok"
    unfolding s2 using h1 by simp_all
  have keys2: "map (\<lambda>e. (event_id e, hook_id e)) (events s2)
      = map (\<lambda>e. (event_id e, hook_id e)) (events s) @ [(eid, hid)]"
    unfolding s2 by (simp add: mark_returned_keys e1 row)
  have there: "\<exists>e\<in>set (events s2). event_id e = eid"
  proof -
    have "(eid, hid) \<in> set (map (\<lambda>e. (event_id e, hook_id e)) (events s2))"
      by (simp add: keys2)
    then show ?thesis by auto
  qed
  have known: "delivered_at ?row \<noteq> None \<longrightarrow>
      (\<forall>e\<in>set (events s1). event_id e = event_id ?row \<longrightarrow> delivered_at e \<noteq> None)"
    using fresh by (auto simp add: e1 row)
  have set2: "\<forall>e\<in>set (events s2). event_id e = eid \<longrightarrow> delivered_at e \<noteq> None"
    using mark_returned_head [OF f1 known, of now2 ?older] by (simp add: s2 row)
  \<comment> \<open>the poll with \<open>undelivered=true\<close>\<close>
  have rows3: "rows_read hid ?q3 (events s2) = Some ?evs3"
    by (rule rows_read_undelivered)
  from hooks_events_no_faults [OF f2 h2 rows3, of P now3] run3
  have r3: "r3 = c_json (EventList (map (view_of P) ?evs3) (length ?evs3)
               (Some (int (length ?evs3)) = req_query_limit ?q3)) 200"
    by simp
  have st3: "status r3 = 200"
    unfolding r3 by (simp add: c_json_def)
  have absent: "eid \<notin> ev_id ` set (map (view_of P) ?evs3)"
  proof
    assume "eid \<in> ev_id ` set (map (view_of P) ?evs3)"
    then obtain e where "e \<in> set ?evs3" and "event_id e = eid"
      by (auto simp add: view_of_def)
    then have "e \<in> set (events s2)" and "delivered_at e = None" and "event_id e = eid"
      by (auto dest: in_set_takeD)
    with set2 show False by blast
  qed
  have p3: "\<exists>views n more. payload r3 = EventList views n more \<and> eid \<notin> ev_id ` set views"
    unfolding r3 using absent by (simp add: c_json_def)
  \<comment> \<open>a hook without earlier events\<close>
  have alone: "payload r2 = EventList [?view] 1 False \<and> payload r3 = EventList [] 0 False"
    if none: "\<forall>e\<in>set (events s). hook_id e \<noteq> hid"
  proof -
    from none have "filter (\<lambda>e. hook_id e = hid) (events s) = []"
      by (simp add: filter_empty_conv)
    then have older: "?older = []"
      by simp
    have only: "event_id e = eid" if "e \<in> set (events s2)" and "hook_id e = hid" for e
    proof -
      from that have "(event_id e, hid) \<in> set (map (\<lambda>e. (event_id e, hook_id e)) (events s2))"
        by force
      then have "(event_id e, hid) \<in> set (map (\<lambda>e. (event_id e, hook_id e)) (events s))
          \<or> event_id e = eid"
        by (auto simp add: keys2)
      with none show ?thesis by auto
    qed
    have "filter (\<lambda>e. hook_id e = hid \<and> delivered_at e = None) (events s2) = []"
      using only set2 by (auto simp add: filter_empty_conv)
    then have evs3: "?evs3 = []"
      by simp
    show ?thesis
      unfolding r2 r3 evs3 older
      by (simp add: c_json_def view req_query_limit_default)
  qed
  from r1 st2 p2 there set2 st3 p3 alone show ?thesis
    by (intro conjI impI) simp_all
qed


lemma ex_request_facts:
  "req_method ex_request = ''POST''" "req_text ex_request = Some [0x7B, 0x7D]"
  "length [0x7B, 0x7D :: 16 word] \<le> MAX_BODY_SIZE" "ex_parse [0x7B, 0x7D] = Some (JObj [])"
  "stored_headers ex_request = [(''content-type'', ''application/json'')]"
  "queryParams ex_request = []" "sourceIp ex_request = None"
  by (simp_all add: ex_request_def MAX_BODY_SIZE_def ex_parse_def stored_headers_def
      queryParams_def sourceIp_def js_or_def toLowerCase_def EXCLUDED_HEADERS_def
      set_prop_def is_array_index_def)

lemma ex_store_facts:
  "faults ex_store = []" "hooks ex_store ''vgctbpvG0MFt'' = Some ex_hook"
  "api_key ex_hook = ''token-A''" "events ex_store = []" "\<not> dispatched P ex_hook"
  by (simp_all add: ex_store_def ex_hook_def dispatched_def)

text \<open>
  C9 (as stated, refuted): a hook with default settings and no events, a POST of \<open>{}\<close> at
  clock reading 5, a poll with default parameters at clock reading 6.  The poll lists the
  event with \<open>delivered_at\<close> null, not set.
\<close>

theorem first_poll_shows_no_delivery_counterexample:
  "payload (fst (hooks_events ex_parse 6 ''token-A'' ''vgctbpvG0MFt'' []
       (snd (webhook_all ex_stringify ex_parse 5 ''y0HypLl8h3fzVrdu'' ''vgctbpvG0MFt''
               ex_request ex_store))))
     = EventList
        [\<lparr>ev_id = ''y0HypLl8h3fzVrdu'', ev_method = ''POST'',
          ev_headers = [(''content-type'', ''application/json'')], ev_body = JObj [],
          ev_query_params = None, ev_source_ip = None, ev_received_at = 5,
          ev_delivered_at = None\<rparr>] 1 False"
proof -
  let ?eid = "''y0HypLl8h3fzVrdu''" and ?hid = "''vgctbpvG0MFt''"
  let ?s1 = "snd (webhook_all ex_stringify ex_parse 5 ?eid ?hid ex_request ex_store)"
  let ?row = "(ingested_row ex_stringify 5 ?eid ?hid ex_request)\<lparr>delivered_at := None\<rparr>"
  have fresh: "?eid \<notin> event_id ` set (events ex_store)"
    by (simp add: ex_store_facts)
  from webhook_all_no_faults(2-4) [OF ex_store_facts(1,2) fresh, of ex_stringify ex_parse 5 ex_request]
  have e1: "events ?s1 = [] @ [?row]" and f1: "faults ?s1 = []"
    and h1: "map_option api_key (hooks ?s1 ?hid) = Some ''token-A''"
    by (simp_all add: ex_store_facts)
  have "rows_read ?hid [] ([] @ [?row])
      = Some (?row # take 49 (sort_key (\<lambda>e. - int (received_at e))
           (filter (\<lambda>e. hook_id e = ?hid) [])))"
    by (rule rows_read_default) (simp_all add: ingested_row_def)
  then have rows: "rows_read ?hid [] (events ?s1) = Some [?row]"
    by (simp add: e1)
  have view: "view_of ex_parse ?row
      = \<lparr>ev_id = ?eid, ev_method = ''POST'',
          ev_headers = [(''content-type'', ''application/json'')], ev_body = JObj [],
          ev_query_params = None, ev_source_ip = None, ev_received_at = 5,
          ev_delivered_at = None\<rparr>"
    using view_of_ingested_row [where req = ex_request and raw = "[0x7B, 0x7D]" and P = ex_parse
        and j = "JObj []" and S = ex_stringify and now = 5 and eid = ?eid and hid = ?hid
        and d = None]
    by (simp add: ex_request_facts MAX_BODY_SIZE_def)
  from hooks_events_no_faults(1) [OF f1 h1 rows, of ex_parse 6]
  show ?thesis
    by (simp add: c_json_def view req_query_limit_default)
qed

theorem ingest_then_poll_roundtrip_witness:
  "fst (webhook_all ex_stringify ex_parse 5 ''y0HypLl8h3fzVrdu'' ''vgctbpvG0MFt'' ex_request ex_store)
     = c_json (Received True (Some ''y0HypLl8h3fzVrdu'')) 200
   \<and> payload (fst (hooks_events ex_parse 7 ''token-A'' ''vgctbpvG0MFt'' [(''undelivered'', ''true'')]
       (snd (hooks_events ex_parse 6 ''token-A'' ''vgctbpvG0MFt'' []
          (snd (webhook_all ex_stringify ex_parse 5 ''y0HypLl8h3fzVrdu'' ''vgctbpvG0MFt''
                  ex_request ex_store))))))
     = EventList [] 0 False"
proof -
  let ?eid = "''y0HypLl8h3fzVrdu''" and ?hid = "''vgctbpvG0MFt''"
  let ?run1 = "webhook_all ex_stringify ex_parse 5 ?eid ?hid ex_request ex_store"
  let ?run2 = "hooks_events ex_parse 6 ''token-A'' ?hid [] (snd ?run1)"
  let ?run3 = "hooks_events ex_parse 7 ''token-A'' ?hid [(''undelivered'', ''true'')] (snd ?run2)"
  have fresh: "?eid \<notin> event_id ` set (events ex_store)"
    and clock: "\<forall>e\<in>set (events ex_store). hook_id e = ?hid \<longrightarrow> received_at e < 5"
    and none: "\<forall>e\<in>set (events ex_store). hook_id e \<noteq> ?hid"
    by (simp_all add: ex_store_facts)
  have ne: "[0x7B, 0x7D :: 16 word] \<noteq> []"
    by simp
  have runs: "?run1 = (fst ?run1, snd ?run1)" "?run2 = (fst ?run2, snd ?run2)"
      "?run3 = (fst ?run3, snd ?run3)"
    by simp_all
  note rt = ingest_then_poll_roundtrip [OF ex_store_facts(1,2,3) fresh ex_request_facts(1,2,3,4) ne
      clock runs]
  from rt have "fst ?run1 = c_json (Received True (Some ?eid)) 200"
    by (rule conjunct1)
  moreover from rt none have "payload (fst ?run3) = EventList [] 0 False"
    by (elim conjE) simp
  ultimately show ?thesis
    by (rule conjI)
qed


end
